theory Spec2Isabelle
  imports Complex_Main "HOL-Library.Multiset" "HOL-Library.Stream"
begin

section \<open>The random source\<close>

text \<open>
  The program draws from Python's module-level generator of \<^verbatim>\<open>random\<close>. The generator is
  modelled as an explicit tape of raw draws that every call threads through: a call takes
  the head of the tape and returns the rest. A theorem that holds for every tape holds for
  every outcome of the random choices.

  \<^item> \<^verbatim>\<open>random.random()\<close> returns a float \<open>k / 2^53\<close> with \<open>0 \<le> k < 2^53\<close>;
  \<^item> \<^verbatim>\<open>randbelow(n)\<close> (the primitive under \<^verbatim>\<open>randint\<close>, \<^verbatim>\<open>shuffle\<close> and
    \<^verbatim>\<open>sample\<close>) returns an integer in \<open>[0, n)\<close>;
  \<^item> \<^verbatim>\<open>random.randint(a, b)\<close> is \<open>a + randbelow(b - a + 1)\<close>.
\<close>

type_synonym rng = "nat stream"

definition random_random :: "rng \<Rightarrow> real \<times> rng" where
  "random_random g = (real (shd g mod 2 ^ 53) / 2 ^ 53, stl g)"

definition randbelow :: "nat \<Rightarrow> rng \<Rightarrow> nat \<times> rng" where
  "randbelow n g = (shd g mod n, stl g)"

definition randint :: "int \<Rightarrow> int \<Rightarrow> rng \<Rightarrow> int \<times> rng" where
  "randint a b g = (let (r, g') = randbelow (nat (b - a + 1)) g in (a + int r, g'))"

section \<open>RandomPatternEngine\<close>

subsection \<open>generate_pattern\<close>

definition pattern_easy :: "int list" where
  "pattern_easy = [1, 1, 1, 1, 0, 1, 1, 1, 0, 1, 1, 1, 1, 0, 1]"

definition pattern_medium :: "int list" where
  "pattern_medium = [1, 1, 1, 0, 1, 1, 0, 1, 1, 1, 0, 1, 0, 1, 1]"

definition pattern_hard :: "int list" where
  "pattern_hard = [1, 1, 0, 1, 1, 0, 1, 0, 1, 1, 0, 0, 1, 1, 0]"

definition pattern_brutal :: "int list" where
  "pattern_brutal = [1, 0, 1, 1, 0, 0, 1, 0, 1, 0, 1, 1, 0, 1, 0]"

text \<open>The \<^verbatim>\<open>if level <= 4 ... elif ... else\<close> chain that copies one template.\<close>

definition select_template :: "int \<Rightarrow> int list" where
  "select_template lvl =
     (if lvl \<le> 4 then pattern_easy
      else if lvl \<le> 10 then pattern_medium
      else if lvl \<le> 16 then pattern_hard
      else pattern_brutal)"

text \<open>
  \<^verbatim>\<open>pat[i], pat[j] = pat[j], pat[i]\<close>: the right-hand side is read first, then
  \<^verbatim>\<open>pat[i]\<close> and \<^verbatim>\<open>pat[j]\<close> are stored in that order.
\<close>

definition swap_at :: "'a list \<Rightarrow> nat \<Rightarrow> nat \<Rightarrow> 'a list" where
  "swap_at pat i j = (pat[i := pat ! j])[j := pat ! i]"

text \<open>
  The loop \<^verbatim>\<open>for i in range(len(pat)-1, 0, -1)\<close>: \<open>perturb i\<close> runs the iterations for
  the indices \<open>i, i - 1, ..., 1\<close>. \<^verbatim>\<open>randint\<close> is only called when the first draw is
  below 0.2.
\<close>

fun perturb :: "nat \<Rightarrow> int list \<Rightarrow> rng \<Rightarrow> int list \<times> rng" where
  "perturb 0 pat g = (pat, g)"
| "perturb (Suc n) pat g =
     (let (u, g1) = random_random g in
      if u < 0.2 then
        (let (d, g2) = randint 1 3 g1;
             j = max 0 (int (Suc n) - d)
         in perturb n (swap_at pat (Suc n) (nat j)) g2)
      else perturb n pat g1)"

definition generate_pattern :: "int \<Rightarrow> rng \<Rightarrow> int list \<times> rng" where
  "generate_pattern lvl g =
     (let pat = select_template lvl in perturb (length pat - 1) pat g)"

subsection \<open>get_next_outcome\<close>

datatype py_error = KeyError | IndexError | ValueError

text \<open>
  One entry of \<^verbatim>\<open>active_games\<close>. The keys \<^verbatim>\<open>pattern\<close> and \<^verbatim>\<open>pattern_pos\<close> may be
  absent from the dict (the code tests \<^verbatim>\<open>"pattern" not in state\<close>); the other three are
  read unconditionally.
\<close>

record game_state =
  level :: int
  money :: int
  streak :: int
  pattern :: "int list option"
  pattern_pos :: "int option"

type_synonym token = string
type_synonym games = "token \<rightharpoonup> game_state"

text \<open>
  Subscripting a list: an index from \<open>-len\<close> up to \<open>-1\<close> is taken from the end, an
  index outside \<open>[-len, len)\<close> raises \<^verbatim>\<open>IndexError\<close>.
\<close>

definition py_index :: "'a list \<Rightarrow> int \<Rightarrow> py_error + 'a" where
  "py_index xs i =
     (if 0 \<le> i \<and> i < int (length xs) then Inr (xs ! nat i)
      else if - int (length xs) \<le> i \<and> i < 0 then Inr (xs ! nat (int (length xs) + i))
      else Inl IndexError)"

text \<open>
  Lines 50 to 52: regenerate the pattern when the key is absent or the cursor is at or past
  the end. With the key present, \<^verbatim>\<open>state["pattern_pos"]\<close> is read and raises when absent.
\<close>

definition ensure_pattern :: "game_state \<Rightarrow> rng \<Rightarrow> py_error + (game_state \<times> rng)" where
  "ensure_pattern st g =
     (let regen = (let (pat, g') = generate_pattern (level st) g
                   in Inr (st\<lparr>pattern := Some pat, pattern_pos := Some 0\<rparr>, g'))
      in case pattern st of
           None \<Rightarrow> regen
         | Some p \<Rightarrow>
             (case pattern_pos st of
                None \<Rightarrow> Inl KeyError
              | Some pos \<Rightarrow> if pos \<ge> int (length p) then regen else Inr (st, g)))"

text \<open>Lines 54 and 55: read the element under the cursor, then advance the cursor.\<close>

definition read_cursor :: "game_state \<Rightarrow> py_error + (int \<times> game_state)" where
  "read_cursor st =
     (case (pattern st, pattern_pos st) of
        (Some p, Some pos) \<Rightarrow>
          (case py_index p pos of
             Inl e \<Rightarrow> Inl e
           | Inr r \<Rightarrow> Inr (r, st\<lparr>pattern_pos := Some (pos + 1)\<rparr>))
      | _ \<Rightarrow> Inl KeyError)"

text \<open>
  Lines 57 to 62: the two corrective rules. \<^verbatim>\<open>and\<close> short-circuits, so a draw is taken
  only when the two tests before it hold.
\<close>

definition corrective :: "int \<Rightarrow> game_state \<Rightarrow> rng \<Rightarrow> int \<times> rng" where
  "corrective result st g =
     (if result = 1 \<and> money st > 500000 then
        (let (u, g1) = random_random g in
         if u < 0.15 then (0, g1) else (result, g1))
      else if result = 0 \<and> streak st \<ge> 5 then
        (let (u, g1) = random_random g in
         if u < 0.1 then (1, g1) else (result, g1))
      else (result, g))"

text \<open>
  The whole call, under \<^verbatim>\<open>game_lock\<close>. The state dict is mutated in place, so what was
  stored before an exception stays stored.
\<close>

definition get_next_outcome :: "token \<Rightarrow> games \<Rightarrow> rng \<Rightarrow> (py_error + int) \<times> games \<times> rng" where
  "get_next_outcome tok ag g =
     (case ag tok of
        None \<Rightarrow> (Inr 0, ag, g)
      | Some st \<Rightarrow>
          (case ensure_pattern st g of
             Inl e \<Rightarrow> (Inl e, ag, g)
           | Inr (st1, g1) \<Rightarrow>
               (case read_cursor st1 of
                  Inl e \<Rightarrow> (Inl e, ag(tok \<mapsto> st1), g1)
                | Inr (result, st2) \<Rightarrow>
                    (let (out, g2) = corrective result st2 g1
                     in (Inr out, ag(tok \<mapsto> st2), g2)))))"

text \<open>
  \<open>n\<close> calls in a row for one token, each on the games and the tape the call before
  left: the list of the values returned, oldest first.
\<close>

fun next_outcomes :: "nat \<Rightarrow> token \<Rightarrow> games \<Rightarrow> rng \<Rightarrow> (py_error + int) list \<times> games \<times> rng" where
  "next_outcomes 0 tok ag g = ([], ag, g)"
| "next_outcomes (Suc n) tok ag g =
     (let (r, ag1, g1) = get_next_outcome tok ag g;
          (rs, ag2, g2) = next_outcomes n tok ag1 g1
      in (r # rs, ag2, g2))"

text \<open>
  Two states used as concrete inputs below: one in the middle of a pattern with the money
  above the threshold, one that has not drawn a pattern yet; and a tape whose first five
  raw draws are followed by \<open>2^52\<close> (the float 0.5) for ever.
\<close>

definition rich_state :: game_state where
  "rich_state =
     \<lparr>level = 3, money = 600000, streak = 0, pattern = Some [1, 0, 1], pattern_pos = Some 0\<rparr>"

definition fresh_state :: game_state where
  "fresh_state =
     \<lparr>level = 12, money = 100, streak = 2, pattern = None, pattern_pos = None\<rparr>"

definition sample_tape :: rng where
  "sample_tape = [0, 1, 2 ^ 52, 0, 2] @- sconst (2 ^ 52)"

section \<open>TriviaCache\<close>

subsection \<open>Questions and the fallback banks\<close>

text \<open>
  A question is a dict with the keys \<^verbatim>\<open>question\<close>, \<^verbatim>\<open>correct_answer\<close> and
  \<^verbatim>\<open>incorrect_answers\<close>; \<^verbatim>\<open>category\<close> is present on fetched questions only and is
  read with \<^verbatim>\<open>q.get("category", "General")\<close>.
\<close>

record trivia_question =
  question :: string
  correct_answer :: string
  incorrect_answers :: "string list"
  category :: "string option"

text \<open>The shape of every literal of the fallback banks: no \<^verbatim>\<open>category\<close> key.\<close>

definition mk_q :: "string \<Rightarrow> string \<Rightarrow> string list \<Rightarrow> trivia_question" where
  "mk_q q c ws =
     \<lparr>question = q, correct_answer = c, incorrect_answers = ws, category = None\<rparr>"

text \<open>
  The three banks, literal by literal. The one character outside ASCII (the middle dot
  of the Planck question) is written as its two UTF-8 bytes.
\<close>

definition FALLBACK_EASY :: "trivia_question list" where
  "FALLBACK_EASY = [
     mk_q ''What planet is known as the Red Planet?''
       ''Mars'' [''Venus'', ''Jupiter'', ''Saturn''],
     mk_q ''How many continents are there on Earth?''
       ''7'' [''5'', ''6'', ''8''],
     mk_q ''What is the largest ocean on Earth?''
       ''Pacific Ocean'' [''Atlantic Ocean'', ''Indian Ocean'', ''Arctic Ocean''],
     mk_q ''What gas do plants absorb from the atmosphere?''
       ''Carbon Dioxide'' [''Oxygen'', ''Nitrogen'', ''Helium''],
     mk_q ''Which animal is known as the King of the Jungle?''
       ''Lion'' [''Tiger'', ''Elephant'', ''Bear''],
     mk_q ''What is the chemical symbol for water?''
       ''H2O'' [''CO2'', ''O2'', ''NaCl''],
     mk_q ''How many legs does a spider have?''
       ''8'' [''6'', ''10'', ''12''],
     mk_q ''What color are emeralds?''
       ''Green'' [''Blue'', ''Red'', ''Yellow''],
     mk_q ''Which country is home to the kangaroo?''
       ''Australia'' [''New Zealand'', ''South Africa'', ''Brazil''],
     mk_q ''What is the hardest natural substance on Earth?''
       ''Diamond'' [''Gold'', ''Iron'', ''Platinum''],
     mk_q ''How many colors are in a rainbow?''
       ''7'' [''5'', ''6'', ''8''],
     mk_q ''What is the largest mammal in the world?''
       ''Blue Whale'' [''Elephant'', ''Giraffe'', ''Hippopotamus''],
     mk_q ''Which planet is closest to the Sun?''
       ''Mercury'' [''Venus'', ''Earth'', ''Mars''],
     mk_q ''What is the boiling point of water in Celsius?''
       ''100'' [''90'', ''110'', ''120''],
     mk_q ''How many days are in a leap year?''
       ''366'' [''365'', ''367'', ''364''],
     mk_q ''What is the smallest prime number?''
       ''2'' [''1'', ''3'', ''0''],
     mk_q ''Which organ pumps blood through the body?''
       ''Heart'' [''Lungs'', ''Brain'', ''Liver''],
     mk_q ''What fruit is known for keeping doctors away?''
       ''Apple'' [''Banana'', ''Orange'', ''Grape''],
     mk_q ''How many sides does a triangle have?''
       ''3'' [''4'', ''5'', ''6''],
     mk_q ''What is the freezing point of water in Celsius?''
       ''0'' [''-10'', ''10'', ''32''],
     mk_q ''What is the capital of France?''
       ''Paris'' [''London'', ''Berlin'', ''Madrid''],
     mk_q ''Which season comes after winter?''
       ''Spring'' [''Summer'', ''Autumn'', ''Winter''],
     mk_q ''How many months have 31 days?''
       ''7'' [''5'', ''6'', ''8''],
     mk_q ''What color is a ruby?''
       ''Red'' [''Blue'', ''Green'', ''Purple''],
     mk_q ''What do bees produce?''
       ''Honey'' [''Milk'', ''Silk'', ''Wax''],
     mk_q ''Which is the longest river in the world?''
       ''Nile'' [''Amazon'', ''Mississippi'', ''Yangtze''],
     mk_q ''How many weeks are in a year?''
       ''52'' [''48'', ''50'', ''54''],
     mk_q ''What is the opposite of 'hot'?''
       ''Cold'' [''Warm'', ''Cool'', ''Freezing''],
     mk_q ''Which shape has 4 equal sides?''
       ''Square'' [''Rectangle'', ''Triangle'', ''Circle''],
     mk_q ''What is 12 x 12?''
       ''144'' [''124'', ''132'', ''156''],
     mk_q ''What animal says 'moo'?''
       ''Cow'' [''Sheep'', ''Pig'', ''Horse''],
     mk_q ''How many hours are in a day?''
       ''24'' [''12'', ''20'', ''36''],
     mk_q ''What is the capital of Japan?''
       ''Tokyo'' [''Kyoto'', ''Osaka'', ''Seoul''],
     mk_q ''Which element has the chemical symbol 'O'?''
       ''Oxygen'' [''Gold'', ''Osmium'', ''Oganesson''],
     mk_q ''What is the largest desert in the world?''
       ''Sahara'' [''Gobi'', ''Kalahari'', ''Antarctic''],
     mk_q ''How many zeros are in one million?''
       ''6'' [''5'', ''7'', ''8''],
     mk_q ''What primary color is made by mixing red and blue?''
       ''Purple'' [''Green'', ''Orange'', ''Brown''],
     mk_q ''Which planet has rings around it?''
       ''Saturn'' [''Mars'', ''Venus'', ''Mercury''],
     mk_q ''What is the main ingredient in bread?''
       ''Flour'' [''Sugar'', ''Salt'', ''Butter''],
     mk_q ''How many strings does a standard guitar have?''
       ''6'' [''4'', ''5'', ''8'']]"

definition FALLBACK_MEDIUM :: "trivia_question list" where
  "FALLBACK_MEDIUM = [
     mk_q ''What year did the Titanic sink?''
       ''1912'' [''1905'', ''1915'', ''1920''],
     mk_q ''Which element has the atomic number 79?''
       ''Gold'' [''Silver'', ''Platinum'', ''Copper''],
     mk_q ''What is the speed of light in km/s (approximately)?''
       ''300,000'' [''150,000'', ''500,000'', ''1,000,000''],
     mk_q ''Who painted the Mona Lisa?''
       ''Leonardo da Vinci'' [''Michelangelo'', ''Raphael'', ''Donatello''],
     mk_q ''What is the powerhouse of the cell?''
       ''Mitochondria'' [''Nucleus'', ''Ribosome'', ''Golgi Body''],
     mk_q ''Which country has the most people?''
       ''India'' [''China'', ''USA'', ''Indonesia''],
     mk_q ''What is the square root of 169?''
       ''13'' [''11'', ''12'', ''14''],
     mk_q ''In what year did World War II end?''
       ''1945'' [''1944'', ''1946'', ''1943''],
     mk_q ''What is the currency of Japan?''
       ''Yen'' [''Won'', ''Yuan'', ''Rupee''],
     mk_q ''Which blood type is the universal donor?''
       ''O negative'' [''A positive'', ''AB positive'', ''B negative''],
     mk_q ''How many bones are in the adult human body?''
       ''206'' [''196'', ''216'', ''186''],
     mk_q ''What is the chemical formula for table salt?''
       ''NaCl'' [''KCl'', ''CaCl2'', ''NaOH''],
     mk_q ''Which planet is known as the Morning Star?''
       ''Venus'' [''Mars'', ''Mercury'', ''Jupiter''],
     mk_q ''What does DNA stand for?''
       ''Deoxyribonucleic Acid'' [''Dinitrogen Acid'', ''Dynamic Nuclear Acid'', ''Dual Nucleic Acid''],
     mk_q ''Who wrote 'Romeo and Juliet'?''
       ''William Shakespeare'' [''Charles Dickens'', ''Jane Austen'', ''Mark Twain''],
     mk_q ''What is the smallest country in the world?''
       ''Vatican City'' [''Monaco'', ''San Marino'', ''Liechtenstein''],
     mk_q ''How many chromosomes do humans have?''
       ''46'' [''44'', ''48'', ''42''],
     mk_q ''What is the tallest mountain in the world?''
       ''Mount Everest'' [''K2'', ''Kangchenjunga'', ''Makalu''],
     mk_q ''Which gas makes up about 78% of Earth's atmosphere?''
       ''Nitrogen'' [''Oxygen'', ''Carbon Dioxide'', ''Argon''],
     mk_q ''What year was the first iPhone released?''
       ''2007'' [''2005'', ''2008'', ''2006'']]"

definition FALLBACK_HARD :: "trivia_question list" where
  "FALLBACK_HARD = [
     mk_q ''What is the half-life of Carbon-14 (in years)?''
       ''5,730'' [''3,200'', ''8,400'', ''11,460''],
     mk_q ''In what year was the Treaty of Westphalia signed?''
       ''1648'' [''1588'', ''1712'', ''1555''],
     mk_q (''What is the Planck constant (in J'' @ [CHR 0xC2, CHR 0xB7] @ ''s)?'')
       ''6.626 x 10^-34'' [''3.14 x 10^-34'', ''9.81 x 10^-34'', ''1.38 x 10^-23''],
     mk_q ''Which mathematician proved Fermat's Last Theorem?''
       ''Andrew Wiles'' [''Pierre de Fermat'', ''Leonhard Euler'', ''Carl Gauss''],
     mk_q ''What is the deepest point in the ocean?''
       ''Mariana Trench'' [''Tonga Trench'', ''Java Trench'', ''Puerto Rico Trench''],
     mk_q ''What element has the highest melting point?''
       ''Tungsten'' [''Iron'', ''Titanium'', ''Carbon''],
     mk_q ''Who developed the theory of General Relativity?''
       ''Albert Einstein'' [''Isaac Newton'', ''Niels Bohr'', ''Max Planck''],
     mk_q ''What is the capital of Mongolia?''
       ''Ulaanbaatar'' [''Astana'', ''Bishkek'', ''Tashkent''],
     mk_q ''In computing, what does RAID stand for?''
       ''Redundant Array of Independent Disks'' [''Random Access Internal Drive'', ''Rapid Array of Integrated Data'', ''Recoverable Archive of Internal Disks''],
     mk_q ''What is the longest bone in the human body?''
       ''Femur'' [''Tibia'', ''Humerus'', ''Fibula''],
     mk_q ''Which artist cut off part of his own ear?''
       ''Vincent van Gogh'' [''Pablo Picasso'', ''Claude Monet'', ''Salvador Dali''],
     mk_q ''What is the most abundant element in the universe?''
       ''Hydrogen'' [''Helium'', ''Oxygen'', ''Carbon''],
     mk_q ''In what year did the Berlin Wall fall?''
       ''1989'' [''1987'', ''1991'', ''1985''],
     mk_q ''What is the only mammal capable of true flight?''
       ''Bat'' [''Flying Squirrel'', ''Sugar Glider'', ''Colugo''],
     mk_q ''What language has the most native speakers?''
       ''Mandarin Chinese'' [''English'', ''Spanish'', ''Hindi'']]"

definition TRIVIA_MIN_CACHE :: nat where
  "TRIVIA_MIN_CACHE = 10"

text \<open>
  \<^verbatim>\<open>trivia_cache\<close>, a dict from the difficulty string to the pool of that tier, and
  \<^verbatim>\<open>trivia_cache.get(difficulty, [])\<close>.
\<close>

type_synonym trivia_cache = "string \<rightharpoonup> trivia_question list"

definition cache_get :: "trivia_cache \<Rightarrow> string \<Rightarrow> trivia_question list" where
  "cache_get tc difficulty = (case tc difficulty of None \<Rightarrow> [] | Some pool \<Rightarrow> pool)"

text \<open>
  The dict literal \<^verbatim>\<open>{"easy": FALLBACK_EASY, "medium": FALLBACK_MEDIUM, "hard": FALLBACK_HARD}\<close>
  that both \<^verbatim>\<open>prefetch_trivia\<close> and \<^verbatim>\<open>get_trivia_question\<close> build.
\<close>

definition fallback_table :: "string \<rightharpoonup> trivia_question list" where
  "fallback_table =
     [''easy'' \<mapsto> FALLBACK_EASY, ''medium'' \<mapsto> FALLBACK_MEDIUM, ''hard'' \<mapsto> FALLBACK_HARD]"

subsection \<open>random.shuffle and random.sample\<close>

text \<open>
  The two library calls, after CPython's \<^verbatim>\<open>Lib/random.py\<close>.

  \<^verbatim>\<open>shuffle(x)\<close> is the loop
  \<^verbatim>\<open>for i in reversed(range(1, len(x))): j = randbelow(i + 1); x[i], x[j] = x[j], x[i]\<close>.
\<close>

fun shuffle_loop :: "nat \<Rightarrow> 'a list \<Rightarrow> rng \<Rightarrow> 'a list \<times> rng" where
  "shuffle_loop 0 x g = (x, g)"
| "shuffle_loop (Suc i) x g =
     (let (j, g1) = randbelow (Suc i + 1) g
      in shuffle_loop i (swap_at x (Suc i) j) g1)"

definition random_shuffle :: "'a list \<Rightarrow> rng \<Rightarrow> 'a list \<times> rng" where
  "random_shuffle x g = shuffle_loop (length x - 1) x g"

text \<open>
  \<^verbatim>\<open>sample(population, k)\<close> raises \<^verbatim>\<open>ValueError\<close> unless \<open>0 \<le> k \<le> n\<close>. It then
  computes \<^verbatim>\<open>setsize = 21\<close>, plus \<^verbatim>\<open>4 ** _ceil(_log(k * 3, 4))\<close> when \<open>k > 5\<close>, and
  takes one of two loops.

  The power added is the least power of 4 above \<open>3 k\<close>, which is never a power of 4
  itself; \<open>pow4_ceil 1 x\<close> finds it by multiplying by 4. The library computes the
  exponent in floating point, which gives the same for every \<open>k\<close> that the length of a
  list can reach.
\<close>

function pow4_ceil :: "nat \<Rightarrow> nat \<Rightarrow> nat" where
  "pow4_ceil p x = (if 0 < p \<and> p < x then pow4_ceil (4 * p) x else p)"
  by pat_completeness auto
termination
  by (relation "measure (\<lambda>(p, x). x - p)") auto

declare pow4_ceil.simps [simp del]

definition sample_setsize :: "nat \<Rightarrow> nat" where
  "sample_setsize k = (if k > 5 then 21 + pow4_ceil 1 (k * 3) else 21)"

text \<open>
  With \<open>n \<le> setsize\<close> the loop is
  \<^verbatim>\<open>for i in range(k): j = randbelow(n - i); result[i] = pool[j]; pool[j] = pool[n - i - 1]\<close>
  on a copy \<^verbatim>\<open>pool\<close> of the population. \<open>sample_loop r m pool\<close> runs the last \<open>r\<close>
  iterations, \<open>m = n - i\<close> being the number of positions of \<open>pool\<close> still unselected.
\<close>

fun sample_loop :: "nat \<Rightarrow> nat \<Rightarrow> 'a list \<Rightarrow> rng \<Rightarrow> 'a list \<times> rng" where
  "sample_loop 0 m pool g = ([], g)"
| "sample_loop (Suc r) m pool g =
     (let (j, g1) = randbelow m g;
          (rest, g2) = sample_loop r (m - 1) (pool[j := pool ! (m - 1)]) g1
      in (pool ! j # rest, g2))"

text \<open>
  With \<open>n > setsize\<close> the loop keeps the set of the positions selected so far and draws
  a position again while it is in that set:
  \<^verbatim>\<open>j = randbelow(n); while j in selected: j = randbelow(n)\<close>.
  The inner loop ends only when a draw is a fresh position, so it is a partial function
  of the tape: \<open>None\<close> stands for a call that never returns.
\<close>

partial_function (option) redraw :: "nat \<Rightarrow> nat set \<Rightarrow> rng \<Rightarrow> (nat \<times> rng) option" where
  "redraw n selected g =
     (let (j, g1) = randbelow n g
      in if j \<in> selected then redraw n selected g1 else Some (j, g1))"

text \<open>
  The outer loop
  \<^verbatim>\<open>for i in range(k): ...; selected_add(j); result[i] = population[j]\<close>;
  \<open>sample_set_loop r\<close> runs its last \<open>r\<close> iterations.
\<close>

fun sample_set_loop ::
    "nat \<Rightarrow> nat \<Rightarrow> 'a list \<Rightarrow> nat set \<Rightarrow> rng \<Rightarrow> ('a list \<times> rng) option" where
  "sample_set_loop 0 n population selected g = Some ([], g)"
| "sample_set_loop (Suc r) n population selected g =
     (case redraw n selected g of
        None \<Rightarrow> None
      | Some (j, g1) \<Rightarrow>
          (case sample_set_loop r n population (insert j selected) g1 of
             None \<Rightarrow> None
           | Some (rest, g2) \<Rightarrow> Some (population ! j # rest, g2)))"

definition random_sample ::
    "'a list \<Rightarrow> int \<Rightarrow> rng \<Rightarrow> ((py_error + 'a list) \<times> rng) option" where
  "random_sample population k g =
     (let n = length population in
      if \<not> (0 \<le> k \<and> k \<le> int n) then Some (Inl ValueError, g)
      else if n \<le> sample_setsize (nat k) then
        (let (res, g1) = sample_loop (nat k) n population g in Some (Inr res, g1))
      else
        (case sample_set_loop (nat k) n population {} g of
           None \<Rightarrow> None
         | Some (res, g1) \<Rightarrow> Some (Inr res, g1)))"

text \<open>
  The values of \<^verbatim>\<open>randbelow\<close> that the first loop of \<^verbatim>\<open>sample\<close> reads from a tape,
  for a population of \<open>n\<close> elements and a sample of \<open>k\<close>: the \<open>i\<close>-th is below \<open>n - i\<close>.
  \<^verbatim>\<open>shuffle\<close> of \<open>n\<close> elements reads the first \<open>n - 1\<close> of them.
\<close>

definition sample_draws :: "nat \<Rightarrow> nat \<Rightarrow> rng \<Rightarrow> nat list" where
  "sample_draws k n g = map (\<lambda>i. (g !! i) mod (n - i)) [0..<k]"

text \<open>
  The positions below \<open>n\<close> that a tape ever draws; the redrawing loop can return \<open>k\<close>
  elements only from a tape that draws at least \<open>k\<close> different positions. A tape on
  which every position below \<open>n\<close> is drawn again and again draws them all; a generator
  that could avoid a position for ever is not one.
\<close>

definition tape_positions :: "nat \<Rightarrow> rng \<Rightarrow> nat set" where
  "tape_positions n g = (\<lambda>x. x mod n) ` sset g"

definition fair_tape :: "nat \<Rightarrow> rng \<Rightarrow> bool" where
  "fair_tape n g = (\<forall>v<n. \<forall>k. \<exists>i. k \<le> i \<and> (g !! i) mod n = v)"

text \<open>
  The positions that the two calls select. Both read their argument only by position,
  so what they do to a list is what they do to the list \<open>0, ..., n - 1\<close> of its
  positions: \<open>shuffle_order n g\<close> is the order in which \<^verbatim>\<open>shuffle\<close> leaves \<open>n\<close>
  elements on the tape \<open>g\<close>, and \<open>sample_positions k n g\<close> the positions that
  \<^verbatim>\<open>sample\<close> picks, in the order of the result, if it returns.
\<close>

definition shuffle_order :: "nat \<Rightarrow> rng \<Rightarrow> nat list" where
  "shuffle_order n g = fst (random_shuffle [0..<n] g)"

definition sample_positions :: "nat \<Rightarrow> nat \<Rightarrow> rng \<Rightarrow> nat list option" where
  "sample_positions k n g =
     (case random_sample [0..<n] (int k) g of
        Some (Inr ps, g1) \<Rightarrow> Some ps
      | _ \<Rightarrow> None)"

text \<open>
  The tape on which every draw below \<open>n\<close> is renamed by \<open>p\<close>. When \<open>p\<close> permutes the
  positions below \<open>n\<close>, independent uniform draws stay independent and uniform.
\<close>

definition relabel :: "(nat \<Rightarrow> nat) \<Rightarrow> nat \<Rightarrow> rng \<Rightarrow> rng" where
  "relabel p n g = smap (\<lambda>x. p (x mod n)) g"

subsection \<open>get_trivia_question\<close>

text \<open>One element of the list handed to the client.\<close>

record question_view =
  view_question :: string
  answers :: "string list"
  correct :: string
  view_category :: string

text \<open>The loop \<^verbatim>\<open>for q in selected\<close>: the four answers are shuffled for each question.\<close>

fun format_for_client :: "trivia_question list \<Rightarrow> rng \<Rightarrow> question_view list \<times> rng" where
  "format_for_client [] g = ([], g)"
| "format_for_client (q # qs) g =
     (let (shuffled, g1) = random_shuffle (incorrect_answers q @ [correct_answer q]) g;
          (rest, g2) = format_for_client qs g1
      in (\<lparr>view_question = question q, answers = shuffled, correct = correct_answer q,
           view_category = (case category q of None \<Rightarrow> ''General'' | Some c \<Rightarrow> c)\<rparr> # rest,
          g2))"

text \<open>
  The emergency fallback of lines 490 to 494: an empty or absent pool is replaced by the
  bank of the tier, the easy bank for a difficulty that is not a key of the table, and
  the replacement is stored in the cache under the difficulty asked for.
\<close>

definition emergency_pool :: "string \<Rightarrow> trivia_cache \<Rightarrow> trivia_question list \<times> trivia_cache" where
  "emergency_pool difficulty tc =
     (let pool = cache_get tc difficulty in
      if pool = [] then
        (let fb = (case fallback_table difficulty of None \<Rightarrow> FALLBACK_EASY | Some b \<Rightarrow> b)
         in (fb, tc(difficulty \<mapsto> fb)))
      else (pool, tc))"

text \<open>
  The parameter \<^verbatim>\<open>count\<close> of the source is \<open>cnt\<close> here. The result is \<open>None\<close> when
  the call does not return (\<^verbatim>\<open>random.sample\<close> redrawing for ever), and otherwise the
  value or exception, the cache and the tape after the call.
\<close>

definition get_trivia_question ::
    "string \<Rightarrow> int \<Rightarrow> trivia_cache \<Rightarrow> rng \<Rightarrow>
       ((py_error + question_view list) \<times> trivia_cache \<times> rng) option" where
  "get_trivia_question difficulty cnt tc g =
     (let (pool, tc1) = emergency_pool difficulty tc in
      if cnt \<ge> int (length pool) then
        (let (selected, g1) = random_shuffle pool g;
             (result, g2) = format_for_client selected g1
         in Some (Inr result, tc1, g2))
      else
        (case random_sample pool cnt g of
           None \<Rightarrow> None
         | Some (Inl e, g1) \<Rightarrow> Some (Inl e, tc1, g1)
         | Some (Inr selected, g1) \<Rightarrow>
             (let (result, g2) = format_for_client selected g1
              in Some (Inr result, tc1, g2))))"

subsection \<open>The refill of prefetch_trivia\<close>

text \<open>
  The merge written three times in the source:
  \<^verbatim>\<open>existing_qs = {q["question"] for q in pool}\<close>,
  \<^verbatim>\<open>new_qs = [q for q in questions if q["question"] not in existing_qs]\<close>,
  then \<^verbatim>\<open>pool + new_qs\<close>.
\<close>

definition merge_new :: "trivia_question list \<Rightarrow> trivia_question list \<Rightarrow> trivia_question list" where
  "merge_new pool questions =
     (let existing_qs = set (map question pool);
          new_qs = filter (\<lambda>q. question q \<notin> existing_qs) questions
      in pool @ new_qs)"

text \<open>Lines 427 to 430: a tier with fewer than ten questions is replaced by its bank.\<close>

definition seed_fallbacks :: "trivia_cache \<Rightarrow> trivia_cache" where
  "seed_fallbacks tc =
     fold (\<lambda>(diff, fallback) c.
             if length (cache_get c diff) < TRIVIA_MIN_CACHE then c(diff \<mapsto> fallback) else c)
          [(''easy'', FALLBACK_EASY), (''medium'', FALLBACK_MEDIUM), (''hard'', FALLBACK_HARD)]
          tc"

text \<open>
  Lines 444 to 459, for the list \<open>questions\<close> that \<^verbatim>\<open>fetch_trivia_from_api\<close> returned:
  a non-empty list is merged into the pool; on an empty one the branch commented
  \<^verbatim>\<open># Ensure fallbacks are loaded\<close> runs. \<^verbatim>\<open>{...}[difficulty]\<close> raises for a key
  that is not in the table.
\<close>

definition merge_step ::
    "string \<Rightarrow> trivia_question list \<Rightarrow> trivia_cache \<Rightarrow> py_error + trivia_cache" where
  "merge_step difficulty questions tc =
     (if questions \<noteq> [] then
        Inr (tc(difficulty \<mapsto> merge_new (cache_get tc difficulty) questions))
      else
        (case fallback_table difficulty of
           None \<Rightarrow> Inl KeyError
         | Some fallback \<Rightarrow>
             if length (cache_get tc difficulty) < length fallback
             then Inr (tc(difficulty \<mapsto> merge_new (cache_get tc difficulty) fallback))
             else Inr tc))"

section \<open>ExternalFetcher\<close>

text \<open>
  What the network and the clock give to one call of \<^verbatim>\<open>fetch_trivia_from_api\<close>.
  \<^verbatim>\<open>urlopen\<close> raises \<^verbatim>\<open>HTTPError\<close> with a status, raises another error (no response
  has arrived: \<^verbatim>\<open>URLError\<close>, a timeout of the connection), or returns a response.
  After a response the body is read: \<^verbatim>\<open>resp.read()\<close> fails (a timeout or a reset
  while the body arrives), or the body is not a JSON object (\<^verbatim>\<open>decode\<close>,
  \<^verbatim>\<open>json.loads\<close> or \<^verbatim>\<open>data.get\<close> raises), or it is an object with an optional
  \<^verbatim>\<open>response_code\<close> and the list under \<^verbatim>\<open>results\<close> (empty when the key is absent).
  An entry of that list carries the keys it has; a key read with \<^verbatim>\<open>q[...]\<close> that is
  absent raises \<^verbatim>\<open>KeyError\<close>.
\<close>

record api_entry =
  entry_question :: "string option"
  entry_correct_answer :: "string option"
  entry_incorrect_answers :: "string list option"
  entry_category :: "string option"

record api_reply =
  response_code :: "int option"
  results :: "api_entry list"

datatype payload = ReadFails | Unreadable | Decoded api_reply

datatype urlopen_outcome =
    RaisesHTTPError int
  | RaisesOther
  | Responds payload

text \<open>
  The three readings of \<^verbatim>\<open>time.time()\<close>: at entry, right after \<^verbatim>\<open>urlopen\<close>
  returned, and in the branch that adds ten seconds.
\<close>

record fetch_env =
  t_entry :: real
  outcome :: urlopen_outcome
  t_response :: real
  t_backoff :: real

definition TRIVIA_FETCH_DELAY :: real where
  "TRIVIA_FETCH_DELAY = 6"

text \<open>The argument of \<^verbatim>\<open>time.sleep\<close> at entry, 0 when the call does not sleep.\<close>

definition fetch_wait :: "fetch_env \<Rightarrow> real \<Rightarrow> real" where
  "fetch_wait env last_fetch_time =
     (let wait = TRIVIA_FETCH_DELAY - (t_entry env - last_fetch_time)
      in if wait > 0 then wait else 0)"

text \<open>
  The body of the loop over \<^verbatim>\<open>results\<close>; \<open>unescape\<close> stands for \<^verbatim>\<open>html.unescape\<close>.
  \<open>None\<close> is an exception, which the caller's \<^verbatim>\<open>except\<close> turns into an empty list.
\<close>

definition convert_entry :: "(string \<Rightarrow> string) \<Rightarrow> api_entry \<Rightarrow> trivia_question option" where
  "convert_entry unescape e =
     (case (entry_question e, entry_correct_answer e, entry_incorrect_answers e) of
        (Some q, Some c, Some ws) \<Rightarrow>
          Some \<lparr>question = unescape q, correct_answer = unescape c,
                incorrect_answers = map unescape ws,
                category = Some (unescape (case entry_category e of
                                             None \<Rightarrow> ''General'' | Some cat \<Rightarrow> cat))\<rparr>
      | _ \<Rightarrow> None)"

fun convert_all :: "(string \<Rightarrow> string) \<Rightarrow> api_entry list \<Rightarrow> trivia_question list option" where
  "convert_all unescape [] = Some []"
| "convert_all unescape (e # es) =
     (case convert_entry unescape e of
        None \<Rightarrow> None
      | Some q \<Rightarrow> (case convert_all unescape es of None \<Rightarrow> None | Some qs \<Rightarrow> Some (q # qs)))"

text \<open>
  The call returns the list of questions and the new value of the global
  \<^verbatim>\<open>last_fetch_time\<close>. Every exception is caught by one of the two handlers, so there
  is no error result. Line 394 stores the time of the response before the body is read,
  so every failure after it leaves that time stored. The difficulty and the amount only
  go into the URL.
\<close>

definition fetch_trivia_from_api ::
    "(string \<Rightarrow> string) \<Rightarrow> string \<Rightarrow> int \<Rightarrow> fetch_env \<Rightarrow> real \<Rightarrow> trivia_question list \<times> real" where
  "fetch_trivia_from_api unescape difficulty amount env last_fetch_time =
     (case outcome env of
        RaisesHTTPError code \<Rightarrow> ([], t_backoff env + 10)
      | RaisesOther \<Rightarrow> ([], last_fetch_time)
      | Responds ReadFails \<Rightarrow> ([], t_response env)
      | Responds Unreadable \<Rightarrow> ([], t_response env)
      | Responds (Decoded data) \<Rightarrow>
          if response_code data = Some 0 then
            (case convert_all unescape (results data) of
               None \<Rightarrow> ([], t_response env)
             | Some questions \<Rightarrow> (questions, t_response env))
          else if response_code data = Some 5 then ([], t_backoff env + 10)
          else ([], t_response env))"

section \<open>LeaderboardCache\<close>

text \<open>
  A leaderboard entry as \<^verbatim>\<open>update_score\<close> writes it. The sort reads the score with
  \<^verbatim>\<open>x.get("score", 0)\<close>, so the key may be absent.
\<close>

record lb_entry =
  username :: string
  emoji :: string
  score :: "int option"
  crashes :: int
  total_games :: int
  total_wins :: int
  best_streak :: int

definition get_score :: "lb_entry \<Rightarrow> int" where
  "get_score x = (case score x of None \<Rightarrow> 0 | Some s \<Rightarrow> s)"

text \<open>
  The part of the database document that the cache reads:
  \<^verbatim>\<open>db.get("leaderboard", [])\<close>.
\<close>

record db =
  leaderboard :: "lb_entry list option"

definition db_leaderboard :: "db \<Rightarrow> lb_entry list" where
  "db_leaderboard d = (case leaderboard d of None \<Rightarrow> [] | Some lb \<Rightarrow> lb)"

text \<open>
  \<^verbatim>\<open>refresh_leaderboard\<close> returns the new value of \<^verbatim>\<open>cached_leaderboard\<close>.
  \<^verbatim>\<open>list.sort\<close> is stable and ascending in the key, as \<open>sort_key\<close> is.
\<close>

definition refresh_leaderboard :: "db \<Rightarrow> lb_entry list" where
  "refresh_leaderboard d =
     (let lb = sort_key (\<lambda>x. - get_score x) (db_leaderboard d) in take 50 lb)"

text \<open>
  The read path of \<^verbatim>\<open>/api/leaderboard\<close> (lines 776 to 783): the first twenty entries of
  the cache, or of the database when the cache gives none.
\<close>

definition leaderboard_top :: "lb_entry list \<Rightarrow> db \<Rightarrow> lb_entry list" where
  "leaderboard_top cached_leaderboard d =
     (let lb = take 20 cached_leaderboard
      in if lb = [] then take 20 (db_leaderboard d) else lb)"

text \<open>A stored leaderboard in which two users hold the same score.\<close>

definition tied_db :: db where
  "tied_db =
     \<lparr>leaderboard = Some
        [\<lparr>username = ''ann'', emoji = '':)'', score = Some 100, crashes = 0, total_games = 1,
          total_wins = 0, best_streak = 1\<rparr>,
         \<lparr>username = ''bob'', emoji = '':)'', score = Some 100, crashes = 2, total_games = 3,
          total_wins = 0, best_streak = 2\<rparr>,
         \<lparr>username = ''cyd'', emoji = '':)'', score = Some 250, crashes = 1, total_games = 2,
          total_wins = 0, best_streak = 4\<rparr>]\<rparr>"

text \<open>A stored leaderboard without ties, in the order the scores were written.\<close>

definition ranked_db :: db where
  "ranked_db =
     \<lparr>leaderboard = Some
        [\<lparr>username = ''ann'', emoji = '':)'', score = Some 50, crashes = 0, total_games = 1,
          total_wins = 0, best_streak = 1\<rparr>,
         \<lparr>username = ''bob'', emoji = '':)'', score = Some 300, crashes = 2, total_games = 3,
          total_wins = 0, best_streak = 2\<rparr>,
         \<lparr>username = ''cyd'', emoji = '':)'', score = Some 120, crashes = 1, total_games = 2,
          total_wins = 0, best_streak = 4\<rparr>]\<rparr>"

text \<open>
  A call that enters at time 100 with \<^verbatim>\<open>urlopen\<close> raising \<^verbatim>\<open>URLError\<close>; the other
  outcomes below are put in its place. The reply carries one well-formed entry.
\<close>

definition timeout_env :: fetch_env where
  "timeout_env = \<lparr>t_entry = 100, outcome = RaisesOther, t_response = 101, t_backoff = 102\<rparr>"

definition one_entry :: api_entry where
  "one_entry =
     \<lparr>entry_question = Some ''Q?'', entry_correct_answer = Some ''a'',
      entry_incorrect_answers = Some [''b'', ''c'', ''d''], entry_category = None\<rparr>"

text \<open>
  A pool of ten questions that are not in any bank, as a cache file may hold it, and the
  cache with that pool for the hard tier.
\<close>

definition custom_pool :: "trivia_question list" where
  "custom_pool =
     map (\<lambda>t. mk_q t ''yes'' [''no'', ''maybe'', ''never''])
       [''q0'', ''q1'', ''q2'', ''q3'', ''q4'', ''q5'', ''q6'', ''q7'', ''q8'', ''q9'']"

definition custom_cache :: trivia_cache where
  "custom_cache = [''hard'' \<mapsto> custom_pool]"

text \<open>
  The scenario of a fetch of three questions, two of them already in the pool: the pool is
  the first five questions of the hard bank, the fetch repeats two of them and brings one
  new question.
\<close>

definition scenario_pool :: "trivia_question list" where
  "scenario_pool = take 5 FALLBACK_HARD"

definition scenario_fetch :: "trivia_question list" where
  "scenario_fetch =
     [FALLBACK_HARD ! 1,
      \<lparr>question = ''Which planet has the most moons?'', correct_answer = ''Saturn'',
       incorrect_answers = [''Jupiter'', ''Uranus'', ''Neptune''],
       category = Some ''Science''\<rparr>,
      FALLBACK_HARD ! 4]"

text \<open>
  The tape \<open>0, 1, 2, ...\<close>, on which every position recurs; a tape for a call that
  samples two questions, with one redraw, and shuffles their answers, followed by that
  tape; and a pool that holds the same question twice.
\<close>

definition counting_tape :: rng where
  "counting_tape = siterate (\<lambda>x. x + 1) 0"

definition trivia_tape :: rng where
  "trivia_tape = [3, 3, 5, 1, 2, 0, 1, 1, 1] @- counting_tape"

definition twin_pool :: "trivia_question list" where
  "twin_pool = [FALLBACK_HARD ! 0, FALLBACK_HARD ! 0]"


section \<open>Properties of the pattern generator\<close>

lemma length_swap_at: "length (swap_at xs i j) = length xs"
  by (simp add: swap_at_def)

lemma mset_swap_at:
  "i < length xs \<Longrightarrow> j < length xs \<Longrightarrow> mset (swap_at xs i j) = mset xs"
  unfolding swap_at_def by (metis mset_swap)

lemma randint_1_3_range:
  "randint 1 3 g = (d, g') \<Longrightarrow> 1 \<le> d \<and> d \<le> 3"
  by (auto simp: randint_def randbelow_def Let_def)

text \<open>
  Every iteration either leaves the list alone or swaps position \<open>i\<close> with an earlier one,
  so the loop keeps the length and the multiset of the list, whatever the tape holds.
\<close>

lemma perturb_perm:
  "n < length pat \<Longrightarrow>
   length (fst (perturb n pat g)) = length pat \<and> mset (fst (perturb n pat g)) = mset pat"
proof (induction n arbitrary: pat g)
  case 0
  then show ?case by simp
next
  case (Suc n)
  obtain u g1 where r: "random_random g = (u, g1)" by (cases "random_random g")
  show ?case
  proof (cases "u < 0.2")
    case True
    obtain d g2 where d: "randint 1 3 g1 = (d, g2)" by (cases "randint 1 3 g1")
    define j where "j = nat (max 0 (int (Suc n) - d))"
    have "1 \<le> d" using randint_1_3_range[OF d] by simp
    then have jlt: "j < length pat" using Suc.prems by (auto simp: j_def)
    let ?p = "swap_at pat (Suc n) j"
    have "n < length ?p" using Suc.prems by (simp add: length_swap_at)
    from Suc.IH[OF this, of g2]
    have "length (fst (perturb n ?p g2)) = length pat \<and> mset (fst (perturb n ?p g2)) = mset pat"
      using Suc.prems jlt by (simp add: length_swap_at mset_swap_at)
    moreover have "perturb (Suc n) pat g = perturb n ?p g2"
      using True r d by (simp add: j_def Let_def)
    ultimately show ?thesis by simp
  next
    case False
    have "perturb (Suc n) pat g = perturb n pat g1" using False r by simp
    moreover have "n < length pat" using Suc.prems by simp
    ultimately show ?thesis using Suc.IH[of pat g1] by simp
  qed
qed

lemma length_select_template: "length (select_template lvl) = 15"
  by (simp add: select_template_def pattern_easy_def pattern_medium_def pattern_hard_def
      pattern_brutal_def)

lemma length_generate_pattern: "length (fst (generate_pattern lvl g)) = 15"
  using perturb_perm[of "length (select_template lvl) - 1" "select_template lvl" g]
  by (simp add: generate_pattern_def Let_def length_select_template)

lemma mset_generate_pattern:
  "mset (fst (generate_pattern lvl g)) = mset (select_template lvl)"
  using perturb_perm[of "length (select_template lvl) - 1" "select_template lvl" g]
  by (simp add: generate_pattern_def Let_def length_select_template)

text \<open>
  Claim C10. For every difficulty level and every outcome of the random choices, the
  sequence returned by \<^verbatim>\<open>generate_pattern\<close> is a permutation of the selected template:
  it has 15 elements and the same multiset of values, so the number of 1s (wins) and the
  number of 0s are exactly those of the template.
\<close>

theorem generate_pattern_permutation:
  "length (fst (generate_pattern lvl g)) = 15 \<and>
   mset (fst (generate_pattern lvl g)) = mset (select_template lvl) \<and>
   count_list (fst (generate_pattern lvl g)) 1 = count_list (select_template lvl) 1 \<and>
   count_list (fst (generate_pattern lvl g)) 0 = count_list (select_template lvl) 0"
proof -
  have "count_list (fst (generate_pattern lvl g)) x = count_list (select_template lvl) x" for x
    using mset_generate_pattern[of lvl g] by (metis count_mset)
  then show ?thesis
    using length_generate_pattern[of lvl g] mset_generate_pattern[of lvl g] by simp
qed

section \<open>Properties of get_next_outcome\<close>

subsection \<open>A token without state\<close>

text \<open>
  Claim C4. For a token that has no entry in \<^verbatim>\<open>active_games\<close>, the call returns 0, it
  does not raise, and it leaves the map of active games (and the random source) as they
  were: no state is created for the token.
\<close>

theorem get_next_outcome_missing_token:
  "ag tok = None \<Longrightarrow> get_next_outcome tok ag g = (Inr 0, ag, g)"
  by (simp add: get_next_outcome_def)

theorem get_next_outcome_missing_token_witness:
  "(Map.empty :: games) ''t0'' = None \<and>
   get_next_outcome ''t0'' Map.empty (sconst 0) = (Inr 0, Map.empty, sconst 0)"
  using get_next_outcome_missing_token[of Map.empty "''t0''" "sconst 0"] by simp

subsection \<open>What a call may write\<close>

lemma ensure_pattern_frame:
  "ensure_pattern st g = Inr (st1, g1) \<Longrightarrow>
   \<exists>p c. st1 = st\<lparr>pattern := p, pattern_pos := c\<rparr>"
  apply (auto simp: ensure_pattern_def Let_def split: option.splits if_splits prod.splits)
  apply (rule exI[of _ "pattern st"], rule exI[of _ "pattern_pos st"], simp)
  done

lemma read_cursor_frame:
  "read_cursor st = Inr (r, st2) \<Longrightarrow> \<exists>c. st2 = st\<lparr>pattern_pos := c\<rparr>"
  by (auto simp: read_cursor_def split: option.splits sum.splits)

lemma get_next_outcome_writes:
  assumes a: "ag tok = Some st" and r: "get_next_outcome tok ag g = (res, ag', g')"
  shows "\<exists>p c. ag' = ag(tok \<mapsto> st\<lparr>pattern := p, pattern_pos := c\<rparr>)"
proof -
  have same: "ag = ag(tok \<mapsto> st\<lparr>pattern := pattern st, pattern_pos := pattern_pos st\<rparr>)"
    using a by (simp add: fun_upd_idem)
  show ?thesis
  proof (cases "ensure_pattern st g")
    case (Inl e)
    then have "ag' = ag" using a r by (simp add: get_next_outcome_def)
    then show ?thesis using same by metis
  next
    case (Inr b)
    obtain st1 g1 where b: "b = (st1, g1)" by (cases b)
    note ep = Inr[unfolded b]
    from ensure_pattern_frame[OF ep] obtain p c
      where st1: "st1 = st\<lparr>pattern := p, pattern_pos := c\<rparr>" by blast
    show ?thesis
    proof (cases "read_cursor st1")
      case (Inl e)
      then have "ag' = ag(tok \<mapsto> st1)" using a r ep by (simp add: get_next_outcome_def)
      then show ?thesis using st1 by blast
    next
      case (Inr c2)
      obtain result st2 where c2: "c2 = (result, st2)" by (cases c2)
      note rc = Inr[unfolded c2]
      from read_cursor_frame[OF rc] obtain c'
        where st2: "st2 = st1\<lparr>pattern_pos := c'\<rparr>" by blast
      have "ag' = ag(tok \<mapsto> st2)" using a r ep rc
        by (simp add: get_next_outcome_def Let_def split: prod.splits)
      then have "ag' = ag(tok \<mapsto> st\<lparr>pattern := p, pattern_pos := c'\<rparr>)"
        using st1 st2 by simp
      then show ?thesis by blast
    qed
  qed
qed

text \<open>
  Claim C5. For a token with a state, whatever the call returns (a value or an
  exception), the games afterwards are the games before with only the keys
  \<^verbatim>\<open>pattern\<close> and \<^verbatim>\<open>pattern_pos\<close> of that token's state possibly rewritten: the money,
  the streak and the level of the state are as before, and no other token is touched.
\<close>

theorem get_next_outcome_frame:
  assumes "ag tok = Some st" and "get_next_outcome tok ag g = (res, ag', g')"
  shows "(\<exists>p c. ag' = ag(tok \<mapsto> st\<lparr>pattern := p, pattern_pos := c\<rparr>)) \<and>
         (\<exists>st'. ag' tok = Some st' \<and> money st' = money st \<and> streak st' = streak st \<and>
                level st' = level st) \<and>
         (\<forall>t. t \<noteq> tok \<longrightarrow> ag' t = ag t)"
proof -
  from get_next_outcome_writes[OF assms] obtain p c
    where "ag' = ag(tok \<mapsto> st\<lparr>pattern := p, pattern_pos := c\<rparr>)" by blast
  then show ?thesis by auto
qed

lemma rich_step:
  "get_next_outcome ''t0'' [''t0'' \<mapsto> rich_state] (sconst 0) =
     (Inr 0, [''t0'' \<mapsto> rich_state\<lparr>pattern_pos := Some 1\<rparr>], sconst 0)"
  by (simp add: get_next_outcome_def ensure_pattern_def read_cursor_def py_index_def
      corrective_def random_random_def rich_state_def Let_def)


theorem get_next_outcome_frame_witness:
  "[''t0'' \<mapsto> rich_state] ''t0'' = Some rich_state \<and>
   get_next_outcome ''t0'' [''t0'' \<mapsto> rich_state] (sconst 0) =
     (Inr 0, [''t0'' \<mapsto> rich_state\<lparr>pattern_pos := Some 1\<rparr>], sconst 0) \<and>
   (\<exists>st'. [''t0'' \<mapsto> rich_state\<lparr>pattern_pos := Some 1\<rparr>] ''t0'' = Some st' \<and>
          money st' = 600000 \<and> streak st' = 0 \<and> level st' = 3) \<and>
   [''t0'' \<mapsto> rich_state\<lparr>pattern_pos := Some 1\<rparr>] ''t1'' = [''t0'' \<mapsto> rich_state] ''t1''"
proof -
  have a: "[''t0'' \<mapsto> rich_state] ''t0'' = Some rich_state" by simp
  from get_next_outcome_frame[OF a rich_step]
  have "\<exists>st'. [''t0'' \<mapsto> rich_state\<lparr>pattern_pos := Some 1\<rparr>] ''t0'' = Some st' \<and>
          money st' = money rich_state \<and> streak st' = streak rich_state \<and> level st' = level rich_state"
    by blast
  then show ?thesis using a rich_step by (simp add: rich_state_def)
qed


subsection \<open>The corrective rules\<close>

lemma draws_below_015:
  "{k. k < 2 ^ 53 \<and> fst (random_random (k ## g)) < 0.15} = {..<1351079888211149}"
proof -
  have "(k < 2 ^ 53 \<and> fst (random_random (k ## g)) < 0.15) = (k < 1351079888211149)"
    for k :: nat
  proof -
    have "(real k / 2 ^ 53 < 0.15) = (real k * 20 < 3 * 2 ^ 53)"
      by (simp add: field_simps)
    also have "\<dots> = (real (k * 20) < real (3 * 2 ^ 53))" by simp
    also have "\<dots> = (k * 20 < 3 * 2 ^ 53)" by (simp only: of_nat_less_iff)
    also have "\<dots> = (k < 1351079888211149)" by simp arith
    finally have e: "(real k / 2 ^ 53 < 0.15) = (k < 1351079888211149)" .
    show ?thesis
    proof (cases "k < 2 ^ 53")
      case True
      then show ?thesis using e by (simp add: random_random_def)
    next
      case False
      then show ?thesis by simp
    qed
  qed
  then show ?thesis by auto
qed

lemma draws_below_01:
  "{k. k < 2 ^ 53 \<and> fst (random_random (k ## g)) < 0.1} = {..<900719925474100}"
proof -
  have "(k < 2 ^ 53 \<and> fst (random_random (k ## g)) < 0.1) = (k < 900719925474100)"
    for k :: nat
  proof -
    have "(real k / 2 ^ 53 < 0.1) = (real k * 10 < 2 ^ 53)"
      by (simp add: field_simps)
    also have "\<dots> = (real (k * 10) < real (2 ^ 53))" by simp
    also have "\<dots> = (k * 10 < 2 ^ 53)" by (simp only: of_nat_less_iff)
    also have "\<dots> = (k < 900719925474100)" by simp arith
    finally have e: "(real k / 2 ^ 53 < 0.1) = (k < 900719925474100)" .
    show ?thesis
    proof (cases "k < 2 ^ 53")
      case True
      then show ?thesis using e by (simp add: random_random_def)
    next
      case False
      then show ?thesis by simp
    qed
  qed
  then show ?thesis by auto
qed

lemma corrective_eq:
  "fst (corrective result st g) =
     (if result = 1 \<and> money st > 500000 \<and> fst (random_random g) < 0.15 then 0
      else if result = 0 \<and> streak st \<ge> 5 \<and> fst (random_random g) < 0.1 then 1
      else result)"
  by (auto simp: corrective_def Let_def split: prod.splits)

lemma corrective_quiet:
  "money st \<le> 500000 \<Longrightarrow> streak st < 5 \<Longrightarrow> corrective r st g = (r, g)"
  by (simp add: corrective_def)

lemma ensure_pattern_reads:
  "ensure_pattern st g = Inr (st1, g1) \<Longrightarrow>
   money st1 = money st \<and> streak st1 = streak st \<and> level st1 = level st"
  by (auto simp: ensure_pattern_def Let_def split: option.splits if_splits prod.splits)

lemma read_cursor_reads:
  "read_cursor st = Inr (r, st2) \<Longrightarrow>
   money st2 = money st \<and> streak st2 = streak st \<and> level st2 = level st"
  by (auto simp: read_cursor_def split: option.splits sum.splits)

lemma read_cursor_element:
  "read_cursor st1 = Inr (result, st2) \<Longrightarrow>
   \<exists>p pos. pattern st1 = Some p \<and> pattern_pos st1 = Some pos \<and> py_index p pos = Inr result"
  by (auto simp: read_cursor_def split: option.splits sum.splits)

text \<open>
  Claim C2. When a call for a token with a state returns a value \<open>out\<close>, there is the
  pattern \<open>p\<close> and the cursor \<open>pos\<close> that the call read (after a possible regeneration),
  \<open>result\<close> is the element of \<open>p\<close> at \<open>pos\<close>, and \<open>out\<close> is \<open>result\<close> except in two cases,
  tested in this order: \<open>result = 1\<close>, the money is above 500000 and the draw of
  \<^verbatim>\<open>random.random()\<close> is below 0.15, where \<open>out = 0\<close>; \<open>result = 0\<close>, the streak is at least 5
  and the draw is below 0.1, where \<open>out = 1\<close>. Of the \<open>2^53\<close> equally likely values of a
  draw, 1351079888211149 are below 0.15 and 900719925474100 are below 0.1: the shares
  are 15% and 10% up to \<open>2^-53\<close>.
\<close>

theorem corrective_rules:
  assumes "ag tok = Some st" and "get_next_outcome tok ag g = (Inr out, ag', g')"
  shows "(\<exists>st1 g1 p pos result.
           ensure_pattern st g = Inr (st1, g1) \<and>
           pattern st1 = Some p \<and> pattern_pos st1 = Some pos \<and> py_index p pos = Inr result \<and>
           out = (if result = 1 \<and> money st > 500000 \<and> fst (random_random g1) < 0.15 then 0
                  else if result = 0 \<and> streak st \<ge> 5 \<and> fst (random_random g1) < 0.1 then 1
                  else result)) \<and>
         card {k. k < 2 ^ 53 \<and> fst (random_random (k ## g)) < 0.15} = 1351079888211149 \<and>
         card {k. k < 2 ^ 53 \<and> fst (random_random (k ## g)) < 0.1} = 900719925474100"
proof -
  have main: "\<exists>st1 g1 p pos result.
           ensure_pattern st g = Inr (st1, g1) \<and>
           pattern st1 = Some p \<and> pattern_pos st1 = Some pos \<and> py_index p pos = Inr result \<and>
           out = (if result = 1 \<and> money st > 500000 \<and> fst (random_random g1) < 0.15 then 0
                  else if result = 0 \<and> streak st \<ge> 5 \<and> fst (random_random g1) < 0.1 then 1
                  else result)"
  proof (cases "ensure_pattern st g")
    case (Inl e)
    then show ?thesis using assms by (simp add: get_next_outcome_def)
  next
    case (Inr b)
    obtain st1 g1 where b: "b = (st1, g1)" by (cases b)
    note ep = Inr[unfolded b]
    show ?thesis
    proof (cases "read_cursor st1")
      case (Inl e)
      then show ?thesis using assms ep by (simp add: get_next_outcome_def)
    next
      case (Inr c)
      obtain result st2 where c: "c = (result, st2)" by (cases c)
      note rc = Inr[unfolded c]
      from read_cursor_element[OF rc] obtain p pos where
        el: "pattern st1 = Some p" "pattern_pos st1 = Some pos" "py_index p pos = Inr result"
        by blast
      have "out = fst (corrective result st2 g1)"
        using assms ep rc by (simp add: get_next_outcome_def Let_def split: prod.splits)
      moreover have "money st2 = money st" "streak st2 = streak st"
        using ensure_pattern_reads[OF ep] read_cursor_reads[OF rc] by simp_all
      ultimately have
        "out = (if result = 1 \<and> money st > 500000 \<and> fst (random_random g1) < 0.15 then 0
                else if result = 0 \<and> streak st \<ge> 5 \<and> fst (random_random g1) < 0.1 then 1
                else result)"
        by (simp only: corrective_eq)
      then show ?thesis using ep el by blast
    qed
  qed
  show ?thesis using main by (simp only: draws_below_015 draws_below_01 card_lessThan simp_thms)
qed

theorem corrective_rules_witness:
  "[''t0'' \<mapsto> rich_state] ''t0'' = Some rich_state \<and>
   get_next_outcome ''t0'' [''t0'' \<mapsto> rich_state] (sconst 0) =
     (Inr 0, [''t0'' \<mapsto> rich_state\<lparr>pattern_pos := Some 1\<rparr>], sconst 0) \<and>
   (\<exists>st1 g1 p pos result.
      ensure_pattern rich_state (sconst 0) = Inr (st1, g1) \<and>
      pattern st1 = Some p \<and> pattern_pos st1 = Some pos \<and> py_index p pos = Inr result \<and>
      (0 :: int) =
        (if result = 1 \<and> money rich_state > 500000 \<and> fst (random_random g1) < 0.15 then 0
         else if result = 0 \<and> streak rich_state \<ge> 5 \<and> fst (random_random g1) < 0.1 then 1
         else result)) \<and>
   py_index [1, 0, 1 :: int] 0 = Inr 1 \<and> money rich_state > 500000 \<and>
   fst (random_random (sconst 0)) < 0.15 \<and>
   card {k. k < 2 ^ 53 \<and> fst (random_random (k ## sconst 0)) < 0.15} = 1351079888211149 \<and>
   card {k. k < 2 ^ 53 \<and> fst (random_random (k ## sconst 0)) < 0.1} = 900719925474100"
proof -
  have a: "[''t0'' \<mapsto> rich_state] ''t0'' = Some rich_state" by simp
  have e: "py_index [1, 0, 1 :: int] 0 = Inr 1" "money rich_state > 500000"
    "fst (random_random (sconst 0)) < 0.15"
    by (simp_all add: rich_state_def py_index_def random_random_def)
  show ?thesis
    using corrective_rules[OF a rich_step] a rich_step e by blast
qed


section \<open>Properties of the cursor\<close>

lemma templates_distinct:
  "pattern_easy \<noteq> pattern_medium" "pattern_easy \<noteq> pattern_hard" "pattern_easy \<noteq> pattern_brutal"
  "pattern_medium \<noteq> pattern_hard" "pattern_medium \<noteq> pattern_brutal" "pattern_hard \<noteq> pattern_brutal"
  by (simp_all add: pattern_easy_def pattern_medium_def pattern_hard_def pattern_brutal_def)

lemma perturb_quiet:
  "(\<forall>k<n. \<not> fst (random_random (sdrop k g)) < 0.2) \<Longrightarrow> perturb n pat g = (pat, sdrop n g)"
proof (induction n arbitrary: g)
  case 0
  then show ?case by simp
next
  case (Suc n)
  have "\<not> fst (random_random (sdrop 0 g)) < 0.2" using Suc.prems by blast
  then have q: "\<not> fst (random_random g) < 0.2" by simp
  have "\<forall>k<n. \<not> fst (random_random (sdrop k (stl g))) < 0.2"
  proof (intro allI impI)
    fix k assume "k < n"
    then show "\<not> fst (random_random (sdrop k (stl g))) < 0.2"
      using Suc.prems[rule_format, of "Suc k"] by simp
  qed
  from Suc.IH[OF this] have "perturb n pat (stl g) = (pat, sdrop (Suc n) g)" by simp
  then show ?case using q by (simp add: random_random_def)
qed

lemma generate_pattern_quiet:
  "(\<forall>k<14. \<not> fst (random_random (sdrop k g)) < 0.2) \<Longrightarrow>
   generate_pattern lvl g = (select_template lvl, sdrop 14 g)"
  using perturb_quiet[of 14 g "select_template lvl"]
  by (simp add: generate_pattern_def Let_def length_select_template)

lemma get_next_outcome_exhausted:
  assumes "ag tok = Some st"
    and "pattern st = None \<or>
         (\<exists>p pos. pattern st = Some p \<and> pattern_pos st = Some pos \<and> int (length p) \<le> pos)"
  shows "get_next_outcome tok ag g =
     (let (pat, g1) = generate_pattern (level st) g;
          st' = st\<lparr>pattern := Some pat, pattern_pos := Some 1\<rparr>;
          (out, g2) = corrective (pat ! 0) st' g1
      in (Inr out, ag(tok \<mapsto> st'), g2))"
proof -
  obtain pat g1 where gp: "generate_pattern (level st) g = (pat, g1)"
    by (cases "generate_pattern (level st) g")
  have len: "length pat = 15" using length_generate_pattern[of "level st" g] gp by simp
  have ep: "ensure_pattern st g = Inr (st\<lparr>pattern := Some pat, pattern_pos := Some 0\<rparr>, g1)"
    using assms(2) gp by (auto simp: ensure_pattern_def Let_def)
  have rc: "read_cursor (st\<lparr>pattern := Some pat, pattern_pos := Some 0\<rparr>) =
              Inr (pat ! 0, st\<lparr>pattern := Some pat, pattern_pos := Some 1\<rparr>)"
    using len by (simp add: read_cursor_def py_index_def)
  show ?thesis using assms(1) gp ep rc
    by (simp add: get_next_outcome_def Let_def split: prod.splits)
qed

lemma get_next_outcome_in_range:
  assumes "ag tok = Some st" "pattern st = Some p" "pattern_pos st = Some pos"
    "0 \<le> pos" "pos < int (length p)"
  shows "get_next_outcome tok ag g =
     (let st' = st\<lparr>pattern_pos := Some (pos + 1)\<rparr>;
          (out, g2) = corrective (p ! nat pos) st' g
      in (Inr out, ag(tok \<mapsto> st'), g2))"
proof -
  have ep: "ensure_pattern st g = Inr (st, g)"
    using assms by (auto simp: ensure_pattern_def Let_def)
  have rc: "read_cursor st = Inr (p ! nat pos, st\<lparr>pattern_pos := Some (pos + 1)\<rparr>)"
    using assms by (simp add: read_cursor_def py_index_def)
  show ?thesis using assms(1) ep rc
    by (simp add: get_next_outcome_def Let_def split: prod.splits)
qed

lemma next_outcomes_in_range:
  "ag tok = Some st \<Longrightarrow> pattern st = Some p \<Longrightarrow> pattern_pos st = Some (int i) \<Longrightarrow>
   i + n \<le> length p \<Longrightarrow> money st \<le> 500000 \<Longrightarrow> streak st < 5 \<Longrightarrow>
   next_outcomes n tok ag g =
     (map Inr (take n (drop i p)), ag(tok \<mapsto> st\<lparr>pattern_pos := Some (int (i + n))\<rparr>), g)"
proof (induction n arbitrary: ag st i)
  case 0
  then show ?case by (simp add: fun_upd_idem)
next
  case (Suc n)
  let ?st' = "st\<lparr>pattern_pos := Some (int i + 1)\<rparr>"
  let ?ag' = "ag(tok \<mapsto> ?st')"
  have i: "i < length p" using Suc.prems by simp
  have step: "get_next_outcome tok ag g = (Inr (p ! i), ?ag', g)"
    using get_next_outcome_in_range[of ag tok st p "int i" g] i Suc.prems
    by (simp add: corrective_quiet Let_def)
  have rest: "next_outcomes n tok ?ag' g =
     (map Inr (take n (drop (Suc i) p)),
      ?ag'(tok \<mapsto> ?st'\<lparr>pattern_pos := Some (int (Suc i + n))\<rparr>), g)"
    using Suc.prems by (intro Suc.IH) (simp_all add: algebra_simps)
  have "take (Suc n) (drop i p) = p ! i # take n (drop (Suc i) p)"
    using i by (simp add: Cons_nth_drop_Suc[symmetric])
  then show ?case using step rest by (simp add: fun_eq_iff)
qed

lemma next_outcomes_fresh:
  assumes "ag tok = Some st" "pattern st = None" "money st \<le> 500000" "streak st < 5"
  shows "next_outcomes 15 tok ag g =
     (let (pat, g1) = generate_pattern (level st) g
      in (map Inr pat, ag(tok \<mapsto> st\<lparr>pattern := Some pat, pattern_pos := Some 15\<rparr>), g1))"
proof -
  obtain pat g1 where gp: "generate_pattern (level st) g = (pat, g1)"
    by (cases "generate_pattern (level st) g")
  have len: "length pat = 15" using length_generate_pattern[of "level st" g] gp by simp
  let ?st1 = "st\<lparr>pattern := Some pat, pattern_pos := Some 1\<rparr>"
  let ?ag1 = "ag(tok \<mapsto> ?st1)"
  have first: "get_next_outcome tok ag g = (Inr (pat ! 0), ?ag1, g1)"
    using get_next_outcome_exhausted[of ag tok st g] assms gp
    by (simp add: corrective_quiet Let_def)
  have "next_outcomes 14 tok ?ag1 g1 =
     (map Inr (take 14 (drop 1 pat)), ?ag1(tok \<mapsto> ?st1\<lparr>pattern_pos := Some (int (1 + 14))\<rparr>), g1)"
    using assms len by (intro next_outcomes_in_range) simp_all
  moreover have "(map Inr pat :: (py_error + int) list) = Inr (pat ! 0) # map Inr (take 14 (drop 1 pat))"
    using len by (cases pat) simp_all
  moreover have "next_outcomes 15 tok ag g =
     (let (r, ag1, g1) = get_next_outcome tok ag g;
          (rs, ag2, g2) = next_outcomes 14 tok ag1 g1
      in (r # rs, ag2, g2))"
    using next_outcomes.simps(2)[of 14 tok ag g] by simp
  ultimately show ?thesis using first gp
    by (simp add: Let_def fun_eq_iff) 
qed


text \<open>
  Claim C3. The level picks one of four different templates of 15 elements by the
  thresholds 4, 10 and 16, and \<^verbatim>\<open>generate_pattern\<close> perturbs a copy of it (with no
  draw below 0.2 the copy comes back as it is). A call whose state has no pattern, or a
  cursor at or past the end of its pattern, draws a new pattern, reads its element 0 and
  leaves the cursor at 1; a call with the cursor inside the pattern reads the element
  under the cursor and moves the cursor one to the right. So fifteen calls from a state
  without a pattern, with the corrective rules out of reach, return the new pattern from
  left to right.
\<close>

theorem template_selection_and_cursor:
  "(lvl \<le> 4 \<longrightarrow> select_template lvl = pattern_easy) \<and>
   (4 < lvl \<and> lvl \<le> 10 \<longrightarrow> select_template lvl = pattern_medium) \<and>
   (10 < lvl \<and> lvl \<le> 16 \<longrightarrow> select_template lvl = pattern_hard) \<and>
   (16 < lvl \<longrightarrow> select_template lvl = pattern_brutal) \<and>
   distinct [pattern_easy, pattern_medium, pattern_hard, pattern_brutal] \<and>
   length (select_template lvl) = 15 \<and>
   generate_pattern lvl g = perturb 14 (select_template lvl) g \<and>
   ((\<forall>k<14. \<not> fst (random_random (sdrop k g)) < 0.2) \<longrightarrow>
      generate_pattern lvl g = (select_template lvl, sdrop 14 g)) \<and>
   (ag tok = Some st \<and>
    (pattern st = None \<or>
     (\<exists>p pos. pattern st = Some p \<and> pattern_pos st = Some pos \<and> int (length p) \<le> pos)) \<longrightarrow>
      get_next_outcome tok ag g =
        (let (pat, g1) = generate_pattern (level st) g;
             st' = st\<lparr>pattern := Some pat, pattern_pos := Some 1\<rparr>;
             (out, g2) = corrective (pat ! 0) st' g1
         in (Inr out, ag(tok \<mapsto> st'), g2))) \<and>
   (ag tok = Some st \<and> pattern st = Some p \<and> pattern_pos st = Some pos \<and>
    0 \<le> pos \<and> pos < int (length p) \<longrightarrow>
      get_next_outcome tok ag g =
        (let st' = st\<lparr>pattern_pos := Some (pos + 1)\<rparr>;
             (out, g2) = corrective (p ! nat pos) st' g
         in (Inr out, ag(tok \<mapsto> st'), g2))) \<and>
   (ag tok = Some st \<and> pattern st = None \<and> money st \<le> 500000 \<and> streak st < 5 \<longrightarrow>
      next_outcomes 15 tok ag g =
        (let (pat, g1) = generate_pattern (level st) g
         in (map Inr pat, ag(tok \<mapsto> st\<lparr>pattern := Some pat, pattern_pos := Some 15\<rparr>), g1)))"
proof -
  have sel: "(lvl \<le> 4 \<longrightarrow> select_template lvl = pattern_easy) \<and>
   (4 < lvl \<and> lvl \<le> 10 \<longrightarrow> select_template lvl = pattern_medium) \<and>
   (10 < lvl \<and> lvl \<le> 16 \<longrightarrow> select_template lvl = pattern_hard) \<and>
   (16 < lvl \<longrightarrow> select_template lvl = pattern_brutal)"
    by (simp add: select_template_def)
  have dis: "distinct [pattern_easy, pattern_medium, pattern_hard, pattern_brutal]"
    using templates_distinct by simp
  have gen: "generate_pattern lvl g = perturb 14 (select_template lvl) g"
    by (simp add: generate_pattern_def Let_def length_select_template)
  show ?thesis
    using sel dis gen length_select_template[of lvl] generate_pattern_quiet[of g lvl]
      get_next_outcome_exhausted[of ag tok st g]
      get_next_outcome_in_range[of ag tok st p pos g]
      next_outcomes_fresh[of ag tok st g]
    by blast
qed

lemma sample_tape_pattern:
  "generate_pattern 12 sample_tape =
     ([1, 1, 0, 1, 1, 0, 1, 0, 1, 0, 0, 0, 1, 1, 1], sconst (2 ^ 52))"
  by (simp add: generate_pattern_def select_template_def pattern_hard_def random_random_def
      randint_def randbelow_def swap_at_def sample_tape_def Let_def)

lemma quiet_tape: "\<forall>k<14. \<not> fst (random_random (sdrop k (sconst (2 ^ 52)))) < 0.2"
  by (simp add: random_random_def)


theorem template_selection_and_cursor_witness:
  "select_template 3 = pattern_easy \<and> select_template 7 = pattern_medium \<and>
   select_template 12 = pattern_hard \<and> select_template 20 = pattern_brutal \<and>
   generate_pattern 3 (sconst (2 ^ 52)) = (pattern_easy, sconst (2 ^ 52)) \<and>
   [''t0'' \<mapsto> fresh_state] ''t0'' = Some fresh_state \<and> pattern fresh_state = None \<and>
   get_next_outcome ''t0'' [''t0'' \<mapsto> fresh_state] sample_tape =
     (Inr 1,
      [''t0'' \<mapsto> fresh_state\<lparr>pattern := Some [1, 1, 0, 1, 1, 0, 1, 0, 1, 0, 0, 0, 1, 1, 1],
                                pattern_pos := Some 1\<rparr>],
      sconst (2 ^ 52)) \<and>
   next_outcomes 15 ''t0'' [''t0'' \<mapsto> fresh_state] sample_tape =
     (map Inr [1, 1, 0, 1, 1, 0, 1, 0, 1, 0, 0, 0, 1, 1, 1],
      [''t0'' \<mapsto> fresh_state\<lparr>pattern := Some [1, 1, 0, 1, 1, 0, 1, 0, 1, 0, 0, 0, 1, 1, 1],
                                pattern_pos := Some 15\<rparr>],
      sconst (2 ^ 52)) \<and>
   [''t0'' \<mapsto> rich_state] ''t0'' = Some rich_state \<and>
   get_next_outcome ''t0'' [''t0'' \<mapsto> rich_state] (sconst (2 ^ 52)) =
     (Inr 1, [''t0'' \<mapsto> rich_state\<lparr>pattern_pos := Some 1\<rparr>], sconst (2 ^ 52))"
proof -
  note T = template_selection_and_cursor
  have f: "[''t0'' \<mapsto> fresh_state] ''t0'' = Some fresh_state" "pattern fresh_state = None"
    "money fresh_state \<le> 500000" "streak fresh_state < 5" "level fresh_state = 12"
    by (simp_all add: fresh_state_def)
  have r: "[''t0'' \<mapsto> rich_state] ''t0'' = Some rich_state" "pattern rich_state = Some [1, 0, 1]"
    "pattern_pos rich_state = Some 0" "money rich_state = 600000"
    by (simp_all add: rich_state_def)
  have s7: "select_template 7 = pattern_medium"
    using T[where lvl = 7] by simp
  have s20: "select_template 20 = pattern_brutal"
    using T[where lvl = 20] by simp
  have s12: "select_template 12 = pattern_hard"
    and c1: "get_next_outcome ''t0'' [''t0'' \<mapsto> fresh_state] sample_tape =
        (let (pat, g1) = generate_pattern (level fresh_state) sample_tape;
             st' = fresh_state\<lparr>pattern := Some pat, pattern_pos := Some 1\<rparr>;
             (out, g2) = corrective (pat ! 0) st' g1
         in (Inr out, [''t0'' \<mapsto> fresh_state](''t0'' \<mapsto> st'), g2))"
    and c15: "next_outcomes 15 ''t0'' [''t0'' \<mapsto> fresh_state] sample_tape =
        (let (pat, g1) = generate_pattern (level fresh_state) sample_tape
         in (map Inr pat,
             [''t0'' \<mapsto> fresh_state](''t0'' \<mapsto> fresh_state\<lparr>pattern := Some pat, pattern_pos := Some 15\<rparr>),
             g1))"
    using T[where lvl = 12 and g = sample_tape and ag = "[''t0'' \<mapsto> fresh_state]"
        and tok = "''t0''" and st = fresh_state] f
    by simp_all
  note T3 = T[where lvl = 3 and g = "sconst (2 ^ 52)" and ag = "[''t0'' \<mapsto> rich_state]"
        and tok = "''t0''" and st = rich_state and p = "[1, 0, 1]" and pos = 0]
  have s3: "select_template 3 = pattern_easy"
    using T3 by simp
  have q: "generate_pattern 3 (sconst (2 ^ 52)) = (select_template 3, sdrop 14 (sconst (2 ^ 52)))"
    using T3 quiet_tape by blast
  have c2: "get_next_outcome ''t0'' [''t0'' \<mapsto> rich_state] (sconst (2 ^ 52)) =
        (let st' = rich_state\<lparr>pattern_pos := Some (0 + 1)\<rparr>;
             (out, g2) = corrective ([1, 0, 1] ! nat 0) st' (sconst (2 ^ 52))
         in (Inr out, [''t0'' \<mapsto> rich_state](''t0'' \<mapsto> st'), g2))"
    using T3 r by simp
  show ?thesis
    using s3 s7 s12 s20 q f(1,2) r(1) c1 c15 c2
    by (simp add: f(5) r(4) sample_tape_pattern corrective_def random_random_def Let_def)
qed

section \<open>Properties of the leaderboard cache\<close>

lemma sorted_desc_sort_key:
  "sorted_wrt (\<lambda>a b. get_score a \<ge> get_score b) (sort_key (\<lambda>x. - get_score x) xs)"
proof -
  have "sorted (map (\<lambda>x. - get_score x) (sort_key (\<lambda>x. - get_score x) xs))"
    by (rule sorted_sort_key)
  then show ?thesis by (simp add: sorted_map)
qed

lemma sorted_desc_refresh:
  "sorted_wrt (\<lambda>a b. get_score a \<ge> get_score b) (refresh_leaderboard d)"
  unfolding refresh_leaderboard_def Let_def
  by (rule sorted_wrt_take[OF sorted_desc_sort_key])

lemma distinct_scores_refresh:
  assumes "distinct (map get_score (db_leaderboard d))"
  shows "distinct (map get_score (refresh_leaderboard d))"
proof -
  let ?s = "sort_key (\<lambda>x. - get_score x) (db_leaderboard d)"
  have "distinct (map get_score ?s)"
    using assms by (simp add: distinct_map)
  then have "distinct (take 50 (map get_score ?s))" by (rule distinct_take)
  then show ?thesis by (simp add: refresh_leaderboard_def Let_def take_map)
qed

lemma strict_from_distinct:
  "sorted_wrt (\<lambda>a b. get_score a \<ge> get_score b) xs \<Longrightarrow> distinct (map get_score xs) \<Longrightarrow>
   sorted_wrt (\<lambda>a b. get_score a > get_score b) xs"
  by (induction xs) (auto simp: order_less_le image_iff)

lemma top_after_refresh:
  "leaderboard_top (refresh_leaderboard d) d = take 20 (refresh_leaderboard d)"
proof (cases "take 20 (refresh_leaderboard d) = []")
  case True
  then have "refresh_leaderboard d = []" by simp
  then have "sort_key (\<lambda>x. - get_score x) (db_leaderboard d) = []"
    by (simp add: refresh_leaderboard_def Let_def)
  then have "db_leaderboard d = []"
    by (metis length_0_conv length_sort)
  then show ?thesis using True by (simp add: leaderboard_top_def Let_def)
next
  case False
  then show ?thesis by (simp add: leaderboard_top_def Let_def)
qed

lemma refresh_split:
  "\<exists>rest. mset (db_leaderboard d) = mset (refresh_leaderboard d) + mset rest \<and>
          (\<forall>x\<in>set (refresh_leaderboard d). \<forall>y\<in>set rest. get_score y \<le> get_score x)"
proof -
  let ?s = "sort_key (\<lambda>x. - get_score x) (db_leaderboard d)"
  have s: "sorted_wrt (\<lambda>a b. get_score a \<ge> get_score b) (take 50 ?s @ drop 50 ?s)"
    using sorted_desc_sort_key[of "db_leaderboard d"] by simp
  have "mset (db_leaderboard d) = mset (take 50 ?s @ drop 50 ?s)" by simp
  then have "mset (db_leaderboard d) = mset (take 50 ?s) + mset (drop 50 ?s)"
    by (simp only: mset_append)
  moreover have "\<forall>x\<in>set (take 50 ?s). \<forall>y\<in>set (drop 50 ?s). get_score y \<le> get_score x"
    using s unfolding sorted_wrt_append by blast
  ultimately show ?thesis unfolding refresh_leaderboard_def Let_def by blast
qed

lemma filter_take_is_take_filter:
  "filter P (take n xs) = take (length (filter P (take n xs))) (filter P xs)"
proof -
  have "filter P xs = filter P (take n xs) @ filter P (drop n xs)"
    by (metis append_take_drop_id filter_append)
  then show ?thesis by simp
qed

lemma sort_by_score_stable:
  "filter (\<lambda>x. get_score x = s) (sort_key (\<lambda>x. - get_score x) xs) =
   filter (\<lambda>x. get_score x = s) xs"
  using sort_key_stable[of "\<lambda>x. - get_score x" "- s" xs] by simp

lemma refresh_stable:
  "filter (\<lambda>x. get_score x = s) (refresh_leaderboard d) =
   take (length (filter (\<lambda>x. get_score x = s) (refresh_leaderboard d)))
     (filter (\<lambda>x. get_score x = s) (db_leaderboard d))"
proof -
  let ?P = "\<lambda>x. get_score x = s"
  let ?S = "sort_key (\<lambda>x. - get_score x) (db_leaderboard d)"
  have r: "refresh_leaderboard d = take 50 ?S"
    by (simp add: refresh_leaderboard_def Let_def)
  have e: "filter ?P (take 50 ?S) = take (length (filter ?P (take 50 ?S))) (filter ?P ?S)"
    by (rule filter_take_is_take_filter)
  have st: "filter ?P ?S = filter ?P (db_leaderboard d)"
    by (rule sort_by_score_stable)
  show ?thesis unfolding r using e by (simp only: st)
qed

lemma top_is_take_20:
  "leaderboard_top (refresh_leaderboard d) d =
     take 20 (sort_key (\<lambda>x. - get_score x) (db_leaderboard d))"
proof -
  have "leaderboard_top (refresh_leaderboard d) d = take 20 (refresh_leaderboard d)"
    by (rule top_after_refresh)
  then show ?thesis by (simp add: refresh_leaderboard_def Let_def)
qed

lemma top_stable:
  "filter (\<lambda>x. get_score x = s) (leaderboard_top (refresh_leaderboard d) d) =
   take (length (filter (\<lambda>x. get_score x = s) (leaderboard_top (refresh_leaderboard d) d)))
     (filter (\<lambda>x. get_score x = s) (db_leaderboard d))"
proof -
  let ?P = "\<lambda>x. get_score x = s"
  let ?S = "sort_key (\<lambda>x. - get_score x) (db_leaderboard d)"
  have e: "filter ?P (take 20 ?S) = take (length (filter ?P (take 20 ?S))) (filter ?P ?S)"
    by (rule filter_take_is_take_filter)
  have st: "filter ?P ?S = filter ?P (db_leaderboard d)"
    by (rule sort_by_score_stable)
  show ?thesis unfolding top_is_take_20 using e by (simp only: st)
qed

text \<open>
  Claim C8, amended. \<^verbatim>\<open>refresh_leaderboard\<close> keeps the 50 best entries of the stored
  leaderboard (all of them when there are fewer), highest score first: every entry left
  out scores no more than every entry kept. The sort is stable: the entries of one score
  that are kept are the first entries of that score in the stored list, in the stored
  order. A read right after the refresh returns the first 20 entries of that snapshot,
  with scores that never increase from one entry to the next and with equal scores in
  the stored order; the scores decrease strictly when no two stored scores are equal.
\<close>

theorem refresh_then_top_sorted:
  "length (refresh_leaderboard d) = min 50 (length (db_leaderboard d)) \<and>
   sorted_wrt (\<lambda>a b. get_score a \<ge> get_score b) (refresh_leaderboard d) \<and>
   (\<exists>rest. mset (db_leaderboard d) = mset (refresh_leaderboard d) + mset rest \<and>
           (\<forall>x\<in>set (refresh_leaderboard d). \<forall>y\<in>set rest. get_score y \<le> get_score x)) \<and>
   filter (\<lambda>x. get_score x = s) (refresh_leaderboard d) =
     take (length (filter (\<lambda>x. get_score x = s) (refresh_leaderboard d)))
       (filter (\<lambda>x. get_score x = s) (db_leaderboard d)) \<and>
   leaderboard_top (refresh_leaderboard d) d = take 20 (refresh_leaderboard d) \<and>
   filter (\<lambda>x. get_score x = s) (leaderboard_top (refresh_leaderboard d) d) =
     take (length (filter (\<lambda>x. get_score x = s) (leaderboard_top (refresh_leaderboard d) d)))
       (filter (\<lambda>x. get_score x = s) (db_leaderboard d)) \<and>
   length (leaderboard_top (refresh_leaderboard d) d) \<le> 20 \<and>
   sorted_wrt (\<lambda>a b. get_score a \<ge> get_score b) (leaderboard_top (refresh_leaderboard d) d) \<and>
   (distinct (map get_score (db_leaderboard d)) \<longrightarrow>
      sorted_wrt (\<lambda>a b. get_score a > get_score b) (leaderboard_top (refresh_leaderboard d) d))"
proof -
  have len: "length (refresh_leaderboard d) = min 50 (length (db_leaderboard d))"
    by (simp add: refresh_leaderboard_def Let_def min.commute)
  have top: "sorted_wrt (\<lambda>a b. get_score a \<ge> get_score b) (take 20 (refresh_leaderboard d))"
    by (rule sorted_wrt_take[OF sorted_desc_refresh])
  have strict: "sorted_wrt (\<lambda>a b. get_score a > get_score b) (take 20 (refresh_leaderboard d))"
    if "distinct (map get_score (db_leaderboard d))"
  proof -
    have "distinct (take 20 (map get_score (refresh_leaderboard d)))"
      using distinct_scores_refresh[OF that] by (rule distinct_take)
    then have "distinct (map get_score (take 20 (refresh_leaderboard d)))"
      by (simp add: take_map)
    then show ?thesis using strict_from_distinct[OF top] by blast
  qed
  show ?thesis
    using len sorted_desc_refresh[of d] refresh_split[of d] top strict
      refresh_stable[of s d] top_stable[of s d]
    by (simp add: top_after_refresh)
qed

lemma tied_top:
  "leaderboard_top (refresh_leaderboard tied_db) tied_db =
     [\<lparr>username = ''cyd'', emoji = '':)'', score = Some 250, crashes = 1, total_games = 2,
       total_wins = 0, best_streak = 4\<rparr>,
      \<lparr>username = ''ann'', emoji = '':)'', score = Some 100, crashes = 0, total_games = 1,
       total_wins = 0, best_streak = 1\<rparr>,
      \<lparr>username = ''bob'', emoji = '':)'', score = Some 100, crashes = 2, total_games = 3,
       total_wins = 0, best_streak = 2\<rparr>]"
  by (simp add: leaderboard_top_def refresh_leaderboard_def db_leaderboard_def tied_db_def
      get_score_def Let_def)

text \<open>
  The claim as stated asks for strictly descending scores. Two users with the same score
  are both kept, next to each other.
\<close>

theorem top_not_strictly_descending:
  "map get_score (leaderboard_top (refresh_leaderboard tied_db) tied_db) = [250, 100, 100] \<and>
   \<not> sorted_wrt (\<lambda>a b. get_score a > get_score b)
        (leaderboard_top (refresh_leaderboard tied_db) tied_db)"
  by (simp add: tied_top get_score_def)

lemma ranked_top:
  "map get_score (leaderboard_top (refresh_leaderboard ranked_db) ranked_db) = [300, 120, 50]"
  by (simp add: leaderboard_top_def refresh_leaderboard_def db_leaderboard_def ranked_db_def
      get_score_def Let_def)

theorem refresh_then_top_sorted_witness:
  "distinct (map get_score (db_leaderboard ranked_db)) \<and>
   map get_score (leaderboard_top (refresh_leaderboard ranked_db) ranked_db) = [300, 120, 50] \<and>
   length (refresh_leaderboard ranked_db) = min 50 (length (db_leaderboard ranked_db)) \<and>
   sorted_wrt (\<lambda>a b. get_score a > get_score b)
     (leaderboard_top (refresh_leaderboard ranked_db) ranked_db) \<and>
   sorted_wrt (\<lambda>a b. get_score a \<ge> get_score b)
     (leaderboard_top (refresh_leaderboard tied_db) tied_db) \<and>
   map username (db_leaderboard tied_db) = [''ann'', ''bob'', ''cyd''] \<and>
   map username (leaderboard_top (refresh_leaderboard tied_db) tied_db)
     = [''cyd'', ''ann'', ''bob''] \<and>
   map username
     (filter (\<lambda>x. get_score x = 100) (leaderboard_top (refresh_leaderboard tied_db) tied_db))
     = [''ann'', ''bob''] \<and>
   filter (\<lambda>x. get_score x = 100) (leaderboard_top (refresh_leaderboard tied_db) tied_db) =
     take 2 (filter (\<lambda>x. get_score x = 100) (db_leaderboard tied_db))"
proof -
  have d: "distinct (map get_score (db_leaderboard ranked_db))"
    by (simp add: db_leaderboard_def ranked_db_def get_score_def)
  have u: "map username (db_leaderboard tied_db) = [''ann'', ''bob'', ''cyd'']"
    "map username (leaderboard_top (refresh_leaderboard tied_db) tied_db)
       = [''cyd'', ''ann'', ''bob'']"
    "map username
       (filter (\<lambda>x. get_score x = 100) (leaderboard_top (refresh_leaderboard tied_db) tied_db))
       = [''ann'', ''bob'']"
    "length (filter (\<lambda>x. get_score x = 100)
       (leaderboard_top (refresh_leaderboard tied_db) tied_db)) = 2"
    by (simp_all add: tied_top) (simp_all add: db_leaderboard_def tied_db_def get_score_def)
  have "filter (\<lambda>x. get_score x = 100) (leaderboard_top (refresh_leaderboard tied_db) tied_db) =
     take (length (filter (\<lambda>x. get_score x = 100)
             (leaderboard_top (refresh_leaderboard tied_db) tied_db)))
       (filter (\<lambda>x. get_score x = 100) (db_leaderboard tied_db))"
    using refresh_then_top_sorted[of tied_db 100] by blast
  then have st: "filter (\<lambda>x. get_score x = 100)
       (leaderboard_top (refresh_leaderboard tied_db) tied_db) =
     take 2 (filter (\<lambda>x. get_score x = 100) (db_leaderboard tied_db))"
    by (simp only: u(4))
  show ?thesis
    using refresh_then_top_sorted[of ranked_db 0] refresh_then_top_sorted[of tied_db 100]
      d ranked_top u(1,2,3) st
    by blast
qed

section \<open>Properties of the fetcher\<close>

lemma convert_all_missing_key:
  "e \<in> set es \<Longrightarrow>
   entry_question e = None \<or> entry_correct_answer e = None \<or> entry_incorrect_answers e = None \<Longrightarrow>
   convert_all unescape es = None"
  by (induction es) (auto simp: convert_entry_def split: option.splits)

lemma fetch_timestamp_cases:
  "snd (fetch_trivia_from_api unescape difficulty amount env lft)
     \<in> {lft, t_response env, t_backoff env + 10}"
  by (auto simp: fetch_trivia_from_api_def split: urlopen_outcome.splits payload.splits
      option.splits)

lemma fetch_no_backoff:
  assumes "\<forall>code. outcome env \<noteq> RaisesHTTPError code"
    and "\<forall>data. outcome env = Responds (Decoded data) \<longrightarrow> response_code data \<noteq> Some 5"
  shows "snd (fetch_trivia_from_api unescape difficulty amount env lft) \<in> {lft, t_response env}"
  using assms
  by (auto simp: fetch_trivia_from_api_def split: urlopen_outcome.splits payload.splits
      option.splits)

text \<open>
  Claim C6, amended. The call never raises: it returns a list and the new last-call
  time. The list is empty when \<^verbatim>\<open>urlopen\<close> raises (an HTTP error status or any other
  error), when reading the body fails, when the body is not a JSON object, when the
  response code is not 0, and when an entry of a code-0 reply lacks a key. The last-call
  time is set ten seconds past the clock on a reply with response code 5 and also on
  every HTTP error status; it is left as it was when \<^verbatim>\<open>urlopen\<close> raises another
  error, before any response; and it is the time of the response in every other case,
  a failure while the body is read included.
\<close>

theorem fetch_outcomes:
  "(outcome env = RaisesOther \<longrightarrow>
      fetch_trivia_from_api unescape difficulty amount env lft = ([], lft)) \<and>
   (outcome env = RaisesHTTPError code \<longrightarrow>
      fetch_trivia_from_api unescape difficulty amount env lft = ([], t_backoff env + 10)) \<and>
   (outcome env = Responds ReadFails \<longrightarrow>
      fetch_trivia_from_api unescape difficulty amount env lft = ([], t_response env)) \<and>
   (outcome env = Responds Unreadable \<longrightarrow>
      fetch_trivia_from_api unescape difficulty amount env lft = ([], t_response env)) \<and>
   (outcome env = Responds (Decoded data) \<and> response_code data = Some 5 \<longrightarrow>
      fetch_trivia_from_api unescape difficulty amount env lft = ([], t_backoff env + 10)) \<and>
   (outcome env = Responds (Decoded data) \<and> response_code data \<noteq> Some 0 \<and>
    response_code data \<noteq> Some 5 \<longrightarrow>
      fetch_trivia_from_api unescape difficulty amount env lft = ([], t_response env)) \<and>
   (outcome env = Responds (Decoded data) \<and> response_code data = Some 0 \<and>
    (\<exists>e\<in>set (results data). entry_question e = None \<or> entry_correct_answer e = None \<or>
                              entry_incorrect_answers e = None) \<longrightarrow>
      fetch_trivia_from_api unescape difficulty amount env lft = ([], t_response env)) \<and>
   (outcome env = Responds (Decoded data) \<and> response_code data = Some 0 \<and>
    convert_all unescape (results data) = Some qs \<longrightarrow>
      fetch_trivia_from_api unescape difficulty amount env lft = (qs, t_response env)) \<and>
   snd (fetch_trivia_from_api unescape difficulty amount env lft)
     \<in> {lft, t_response env, t_backoff env + 10} \<and>
   ((\<forall>code. outcome env \<noteq> RaisesHTTPError code) \<and>
    (\<forall>data. outcome env = Responds (Decoded data) \<longrightarrow> response_code data \<noteq> Some 5) \<longrightarrow>
      snd (fetch_trivia_from_api unescape difficulty amount env lft) \<in> {lft, t_response env})"
proof -
  have bad: "fetch_trivia_from_api unescape difficulty amount env lft = ([], t_response env)"
    if "outcome env = Responds (Decoded data)" "response_code data = Some 0"
      "\<exists>e\<in>set (results data). entry_question e = None \<or> entry_correct_answer e = None \<or>
                                entry_incorrect_answers e = None"
  proof -
    have "convert_all unescape (results data) = None"
      using that(3) convert_all_missing_key by blast
    then show ?thesis using that(1,2) by (simp add: fetch_trivia_from_api_def)
  qed
  have simple:
    "outcome env = RaisesOther \<longrightarrow>
      fetch_trivia_from_api unescape difficulty amount env lft = ([], lft)"
    "outcome env = RaisesHTTPError code \<longrightarrow>
      fetch_trivia_from_api unescape difficulty amount env lft = ([], t_backoff env + 10)"
    "outcome env = Responds ReadFails \<longrightarrow>
      fetch_trivia_from_api unescape difficulty amount env lft = ([], t_response env)"
    "outcome env = Responds Unreadable \<longrightarrow>
      fetch_trivia_from_api unescape difficulty amount env lft = ([], t_response env)"
    "outcome env = Responds (Decoded data) \<and> response_code data = Some 5 \<longrightarrow>
      fetch_trivia_from_api unescape difficulty amount env lft = ([], t_backoff env + 10)"
    "outcome env = Responds (Decoded data) \<and> response_code data \<noteq> Some 0 \<and>
     response_code data \<noteq> Some 5 \<longrightarrow>
      fetch_trivia_from_api unescape difficulty amount env lft = ([], t_response env)"
    "outcome env = Responds (Decoded data) \<and> response_code data = Some 0 \<and>
     convert_all unescape (results data) = Some qs \<longrightarrow>
      fetch_trivia_from_api unescape difficulty amount env lft = (qs, t_response env)"
    by (simp_all add: fetch_trivia_from_api_def)
  show ?thesis
    using simple bad fetch_timestamp_cases[of unescape difficulty amount env lft]
      fetch_no_backoff[of env unescape difficulty amount lft]
    by blast
qed

lemma fetch_examples:
  "fetch_trivia_from_api id ''easy'' 30 timeout_env 50 = ([], 50)"
  "fetch_trivia_from_api id ''easy'' 30 (timeout_env\<lparr>outcome := RaisesHTTPError 500\<rparr>) 50
     = ([], 112)"
  "fetch_trivia_from_api id ''easy'' 30 (timeout_env\<lparr>outcome := Responds ReadFails\<rparr>) 50
     = ([], 101)"
  "fetch_trivia_from_api id ''easy'' 30 (timeout_env\<lparr>outcome := Responds Unreadable\<rparr>) 50
     = ([], 101)"
  "fetch_trivia_from_api id ''easy'' 30
     (timeout_env\<lparr>outcome := Responds (Decoded \<lparr>response_code = Some 5, results = []\<rparr>)\<rparr>) 50
     = ([], 112)"
  "fetch_trivia_from_api id ''easy'' 30
     (timeout_env\<lparr>outcome := Responds (Decoded \<lparr>response_code = Some 1, results = []\<rparr>)\<rparr>) 50
     = ([], 101)"
  "fetch_trivia_from_api id ''easy'' 30
     (timeout_env\<lparr>outcome := Responds (Decoded \<lparr>response_code = Some 0,
        results = [one_entry, one_entry\<lparr>entry_correct_answer := None\<rparr>]\<rparr>)\<rparr>) 50
     = ([], 101)"
  "fetch_trivia_from_api id ''easy'' 30
     (timeout_env\<lparr>outcome := Responds (Decoded \<lparr>response_code = Some 0,
        results = [one_entry]\<rparr>)\<rparr>) 50
     = ([\<lparr>question = ''Q?'', correct_answer = ''a'', incorrect_answers = [''b'', ''c'', ''d''],
          category = Some ''General''\<rparr>], 101)"
  by (simp_all add: fetch_trivia_from_api_def timeout_env_def one_entry_def convert_entry_def)

text \<open>
  The claim as stated lets only the rate-limit reply add the ten seconds. An HTTP status
  500 from \<^verbatim>\<open>urlopen\<close> adds them too: entered with the last-call time 50 and the clock
  at 102 in the handler, the call leaves the last-call time at 112.
\<close>

theorem fetch_http_error_backs_off:
  "outcome (timeout_env\<lparr>outcome := RaisesHTTPError 500\<rparr>) = RaisesHTTPError 500 \<and>
   t_backoff (timeout_env\<lparr>outcome := RaisesHTTPError 500\<rparr>) = 102 \<and>
   fetch_trivia_from_api id ''easy'' 30 (timeout_env\<lparr>outcome := RaisesHTTPError 500\<rparr>) 50
     = ([], 102 + 10)"
  by (simp add: fetch_trivia_from_api_def timeout_env_def)

theorem fetch_outcomes_witness:
  "outcome timeout_env = RaisesOther \<and>
   fetch_trivia_from_api id ''easy'' 30 timeout_env 50 = ([], 50) \<and>
   fetch_trivia_from_api id ''easy'' 30 (timeout_env\<lparr>outcome := RaisesHTTPError 500\<rparr>) 50
     = ([], t_backoff timeout_env + 10) \<and>
   fetch_trivia_from_api id ''easy'' 30 (timeout_env\<lparr>outcome := Responds ReadFails\<rparr>) 50
     = ([], t_response timeout_env) \<and>
   fetch_trivia_from_api id ''easy'' 30 (timeout_env\<lparr>outcome := Responds Unreadable\<rparr>) 50
     = ([], t_response timeout_env) \<and>
   fetch_trivia_from_api id ''easy'' 30
     (timeout_env\<lparr>outcome := Responds (Decoded \<lparr>response_code = Some 5, results = []\<rparr>)\<rparr>) 50
     = ([], t_backoff timeout_env + 10) \<and>
   fetch_trivia_from_api id ''easy'' 30
     (timeout_env\<lparr>outcome := Responds (Decoded \<lparr>response_code = Some 1, results = []\<rparr>)\<rparr>) 50
     = ([], t_response timeout_env) \<and>
   fetch_trivia_from_api id ''easy'' 30
     (timeout_env\<lparr>outcome := Responds (Decoded \<lparr>response_code = Some 0,
        results = [one_entry, one_entry\<lparr>entry_correct_answer := None\<rparr>]\<rparr>)\<rparr>) 50
     = ([], t_response timeout_env) \<and>
   convert_all id [one_entry] =
     Some [\<lparr>question = ''Q?'', correct_answer = ''a'', incorrect_answers = [''b'', ''c'', ''d''],
            category = Some ''General''\<rparr>] \<and>
   fetch_trivia_from_api id ''easy'' 30
     (timeout_env\<lparr>outcome := Responds (Decoded \<lparr>response_code = Some 0,
        results = [one_entry]\<rparr>)\<rparr>) 50
     = ([\<lparr>question = ''Q?'', correct_answer = ''a'', incorrect_answers = [''b'', ''c'', ''d''],
          category = Some ''General''\<rparr>], t_response timeout_env) \<and>
   snd (fetch_trivia_from_api id ''easy'' 30 timeout_env 50) \<in> {50, t_response timeout_env}"
proof -
  have o: "outcome timeout_env = RaisesOther" by (simp add: timeout_env_def)
  have c: "convert_all id [one_entry] =
     Some [\<lparr>question = ''Q?'', correct_answer = ''a'', incorrect_answers = [''b'', ''c'', ''d''],
            category = Some ''General''\<rparr>]"
    by (simp add: one_entry_def convert_entry_def)
  have t: "t_backoff timeout_env + 10 = 112" "t_response timeout_env = 101"
    by (simp_all add: timeout_env_def)
  have "snd (fetch_trivia_from_api id ''easy'' 30 timeout_env 50) \<in> {50, t_response timeout_env}"
    using fetch_outcomes[of timeout_env id "''easy''" 30 50] o by simp
  then show ?thesis using o c t fetch_examples by simp
qed


section \<open>Properties of the refill\<close>

lemma merge_new_eq:
  "merge_new pool questions =
     pool @ filter (\<lambda>q. question q \<notin> question ` set pool) questions"
  by (simp add: merge_new_def Let_def)

lemma length_filter_split:
  "length (filter (\<lambda>q. \<not> P q) xs) + length (filter P xs) = length xs"
  by (induction xs) auto

lemma merge_step_fetched:
  "questions \<noteq> [] \<Longrightarrow>
   merge_step difficulty questions tc =
     Inr (tc(difficulty \<mapsto> cache_get tc difficulty @
            filter (\<lambda>q. question q \<notin> question ` set (cache_get tc difficulty)) questions))"
  by (simp add: merge_step_def merge_new_eq)

lemma merge_step_failed_full:
  "fallback_table difficulty = Some fb \<Longrightarrow> length fb \<le> length (cache_get tc difficulty) \<Longrightarrow>
   merge_step difficulty [] tc = Inr tc"
  by (simp add: merge_step_def)

lemma merge_step_failed_short:
  "fallback_table difficulty = Some fb \<Longrightarrow> length (cache_get tc difficulty) < length fb \<Longrightarrow>
   merge_step difficulty [] tc =
     Inr (tc(difficulty \<mapsto> cache_get tc difficulty @
            filter (\<lambda>q. question q \<notin> question ` set (cache_get tc difficulty)) fb))"
  by (simp add: merge_step_def merge_new_eq)

lemma merge_scenario:
  assumes "length pool = 5" "length questions = 3"
    "length (filter (\<lambda>q. question q \<in> question ` set pool) questions) = 2"
  shows "length (merge_new pool questions) = 6"
proof -
  have "length (filter (\<lambda>q. \<not> question q \<in> question ` set pool) questions) + 2 = 3"
    using length_filter_split[of "\<lambda>q. question q \<in> question ` set pool" questions] assms by simp
  then show ?thesis using assms(1) by (simp add: merge_new_eq)
qed

lemma seed_custom:
  "seed_fallbacks custom_cache =
     [''hard'' \<mapsto> custom_pool, ''easy'' \<mapsto> FALLBACK_EASY, ''medium'' \<mapsto> FALLBACK_MEDIUM]"
  by (simp add: seed_fallbacks_def custom_cache_def cache_get_def custom_pool_def
      TRIVIA_MIN_CACHE_def)

lemma hard_not_custom:
  "filter (\<lambda>q. question q \<notin> question ` set custom_pool) FALLBACK_HARD = FALLBACK_HARD"
  by (simp add: custom_pool_def FALLBACK_HARD_def mk_q_def)

lemma custom_lengths: "length custom_pool = 10" "length FALLBACK_HARD = 15"
  by (simp_all add: custom_pool_def FALLBACK_HARD_def)

lemma custom_hard: "cache_get (seed_fallbacks custom_cache) ''hard'' = custom_pool"
  by (simp add: seed_custom cache_get_def)

lemma custom_failed:
  "merge_step ''hard'' [] (seed_fallbacks custom_cache) =
     Inr ((seed_fallbacks custom_cache)(''hard'' \<mapsto> custom_pool @ FALLBACK_HARD))"
proof -
  have t: "fallback_table ''hard'' = Some FALLBACK_HARD" by (simp add: fallback_table_def)
  show ?thesis
    using merge_step_failed_short[OF t, of "seed_fallbacks custom_cache"] custom_hard
      custom_lengths hard_not_custom
    by simp
qed

text \<open>
  Claim C7, amended. With a non-empty fetch result the pool of the tier becomes the old
  pool followed by the fetched questions whose text is not in the old pool, in the
  order fetched. With an empty result the cache stays as it is when the pool holds at
  least as many questions as the bank of the tier; a shorter pool is extended by the
  questions of the bank whose text it lacks. A pool of 5 merged with 3 fetched
  questions, 2 of them with a text of the pool, has 6 questions.
\<close>

theorem merge_step_dedup:
  "(questions \<noteq> [] \<longrightarrow>
      merge_step difficulty questions tc =
        Inr (tc(difficulty \<mapsto> cache_get tc difficulty @
               filter (\<lambda>q. question q \<notin> question ` set (cache_get tc difficulty)) questions))) \<and>
   (fallback_table difficulty = Some fb \<and> length fb \<le> length (cache_get tc difficulty) \<longrightarrow>
      merge_step difficulty [] tc = Inr tc) \<and>
   (fallback_table difficulty = Some fb \<and> length (cache_get tc difficulty) < length fb \<longrightarrow>
      merge_step difficulty [] tc =
        Inr (tc(difficulty \<mapsto> cache_get tc difficulty @
               filter (\<lambda>q. question q \<notin> question ` set (cache_get tc difficulty)) fb))) \<and>
   (length pool = 5 \<and> length questions = 3 \<and>
    length (filter (\<lambda>q. question q \<in> question ` set pool) questions) = 2 \<longrightarrow>
      length (merge_new pool questions) = 6)"
  using merge_step_fetched[of questions difficulty tc]
    merge_step_failed_full[of difficulty fb tc]
    merge_step_failed_short[of difficulty fb tc]
    merge_scenario[of pool questions]
  by blast

text \<open>
  The claim as stated leaves the pool untouched on every failed fetch. A hard pool of ten
  questions of its own survives the seeding (it is not below ten) and is shorter than
  the bank of 15, so the failed fetch appends the whole bank: 25 questions.
\<close>

theorem merge_on_failure_extends_pool:
  "cache_get (seed_fallbacks custom_cache) ''hard'' = custom_pool \<and>
   length custom_pool = 10 \<and>
   merge_step ''hard'' [] (seed_fallbacks custom_cache) =
     Inr ((seed_fallbacks custom_cache)(''hard'' \<mapsto> custom_pool @ FALLBACK_HARD)) \<and>
   length (custom_pool @ FALLBACK_HARD) = 25 \<and>
   merge_step ''hard'' [] (seed_fallbacks custom_cache) \<noteq> Inr (seed_fallbacks custom_cache)"
proof -
  have "((seed_fallbacks custom_cache)(''hard'' \<mapsto> custom_pool @ FALLBACK_HARD)) ''hard''
          \<noteq> (seed_fallbacks custom_cache) ''hard''"
    by (simp add: seed_custom FALLBACK_HARD_def)
  then have "(seed_fallbacks custom_cache)(''hard'' \<mapsto> custom_pool @ FALLBACK_HARD)
          \<noteq> seed_fallbacks custom_cache"
    by metis
  then show ?thesis using custom_hard custom_lengths custom_failed by simp
qed

lemma scenario_facts:
  "scenario_fetch \<noteq> []" "length scenario_pool = 5" "length scenario_fetch = 3"
  "length (filter (\<lambda>q. question q \<in> question ` set scenario_pool) scenario_fetch) = 2"
  "filter (\<lambda>q. question q \<notin> question ` set scenario_pool) scenario_fetch = [scenario_fetch ! 1]"
  by (simp_all add: scenario_pool_def scenario_fetch_def FALLBACK_HARD_def mk_q_def)

theorem merge_step_dedup_witness:
  "scenario_fetch \<noteq> [] \<and>
   merge_step ''hard'' scenario_fetch [''hard'' \<mapsto> scenario_pool] =
     Inr [''hard'' \<mapsto> scenario_pool @ [scenario_fetch ! 1]] \<and>
   length scenario_pool = 5 \<and> length scenario_fetch = 3 \<and>
   length (filter (\<lambda>q. question q \<in> question ` set scenario_pool) scenario_fetch) = 2 \<and>
   length (merge_new scenario_pool scenario_fetch) = 6 \<and>
   fallback_table ''hard'' = Some FALLBACK_HARD \<and>
   length (cache_get (seed_fallbacks custom_cache) ''hard'') < length FALLBACK_HARD \<and>
   merge_step ''hard'' [] (seed_fallbacks custom_cache) =
     Inr ((seed_fallbacks custom_cache)(''hard'' \<mapsto> custom_pool @ FALLBACK_HARD)) \<and>
   fallback_table ''medium'' = Some FALLBACK_MEDIUM \<and>
   length FALLBACK_MEDIUM \<le> length (cache_get (seed_fallbacks custom_cache) ''medium'') \<and>
   merge_step ''medium'' [] (seed_fallbacks custom_cache) = Inr (seed_fallbacks custom_cache)"
proof -
  note T = merge_step_dedup
  have t: "fallback_table ''hard'' = Some FALLBACK_HARD"
    "fallback_table ''medium'' = Some FALLBACK_MEDIUM"
    by (simp_all add: fallback_table_def)
  have m: "cache_get (seed_fallbacks custom_cache) ''medium'' = FALLBACK_MEDIUM"
    by (simp add: seed_custom cache_get_def)
  have g: "cache_get [''hard'' \<mapsto> scenario_pool] ''hard'' = scenario_pool"
    by (simp add: cache_get_def)
  have s1: "merge_step ''hard'' scenario_fetch [''hard'' \<mapsto> scenario_pool] =
     Inr [''hard'' \<mapsto> scenario_pool @ [scenario_fetch ! 1]]"
    using T[where questions = scenario_fetch and difficulty = "''hard''"
        and tc = "[''hard'' \<mapsto> scenario_pool]"] scenario_facts(1,5) g
    by simp
  have s2: "length (merge_new scenario_pool scenario_fetch) = 6"
    using T[where pool = scenario_pool and questions = scenario_fetch] scenario_facts(2,3,4)
    by blast
  have s3: "merge_step ''hard'' [] (seed_fallbacks custom_cache) =
     Inr ((seed_fallbacks custom_cache)(''hard'' \<mapsto> custom_pool @ FALLBACK_HARD))"
    using T[where difficulty = "''hard''" and tc = "seed_fallbacks custom_cache"
        and fb = FALLBACK_HARD] t(1) custom_hard custom_lengths hard_not_custom
    by simp
  have s4: "merge_step ''medium'' [] (seed_fallbacks custom_cache) = Inr (seed_fallbacks custom_cache)"
    using T[where difficulty = "''medium''" and tc = "seed_fallbacks custom_cache"
        and fb = FALLBACK_MEDIUM] t(2) m
    by simp
  show ?thesis
    using s1 s2 s3 s4 t m scenario_facts(1,2,3,4) custom_hard custom_lengths by simp
qed


section \<open>Properties of shuffle and sample\<close>

lemma randbelow_less: "0 < n \<Longrightarrow> fst (randbelow n g) < n"
  by (simp add: randbelow_def)

lemma shuffle_loop_perm:
  "i \<le> length x - 1 \<Longrightarrow>
   length (fst (shuffle_loop i x g)) = length x \<and> mset (fst (shuffle_loop i x g)) = mset x"
proof (induction i arbitrary: x g)
  case 0
  then show ?case by simp
next
  case (Suc i)
  obtain j g1 where r: "randbelow (Suc i + 1) g = (j, g1)" by (cases "randbelow (Suc i + 1) g")
  have j: "j < Suc i + 1" using randbelow_less[of "Suc i + 1" g] r by simp
  have si: "Suc i < length x" using Suc.prems by simp
  let ?x = "swap_at x (Suc i) j"
  have "i \<le> length ?x - 1" using si by (simp add: length_swap_at)
  from Suc.IH[OF this, of g1]
  have "length (fst (shuffle_loop i ?x g1)) = length x \<and> mset (fst (shuffle_loop i ?x g1)) = mset x"
    using si j by (simp add: length_swap_at mset_swap_at)
  then show ?case using r by simp
qed

lemma random_shuffle_perm:
  "length (fst (random_shuffle x g)) = length x \<and> mset (fst (random_shuffle x g)) = mset x"
  using shuffle_loop_perm[of "length x - 1" x g] by (simp add: random_shuffle_def)

lemma mset_take_vacate:
  assumes "j < m" "m \<le> length pool"
  shows "add_mset (pool ! j) (mset (take (m - 1) (pool[j := pool ! (m - 1)]))) = mset (take m pool)"
proof -
  have m: "m - 1 < length pool" "Suc (m - 1) = m" using assms by simp_all
  have tk: "take m pool = take (m - 1) pool @ [pool ! (m - 1)]"
    using take_Suc_conv_app_nth[OF m(1)] m(2) by simp
  show ?thesis
  proof (cases "j = m - 1")
    case True
    then show ?thesis using tk by simp
  next
    case False
    then have jl: "j < m - 1" using assms by simp
    then have jt: "j < length (take (m - 1) pool)" using m by simp
    have "take (m - 1) (pool[j := pool ! (m - 1)]) = (take (m - 1) pool)[j := pool ! (m - 1)]"
      using jl by (simp add: take_update_swap)
    moreover have "(take (m - 1) pool) ! j = pool ! j" using jl by simp
    moreover have "pool ! j \<in># mset (take (m - 1) pool)"
      using jt by (metis \<open>take (m - 1) pool ! j = pool ! j\<close> nth_mem set_mset_mset)
    ultimately show ?thesis using tk jt by (simp add: mset_update)
  qed
qed

lemma sample_loop_sub:
  "r \<le> m \<Longrightarrow> m \<le> length pool \<Longrightarrow>
   length (fst (sample_loop r m pool g)) = r \<and>
   mset (fst (sample_loop r m pool g)) \<subseteq># mset (take m pool)"
proof (induction r arbitrary: m pool g)
  case 0
  then show ?case by simp
next
  case (Suc r)
  obtain j g1 where rb: "randbelow m g = (j, g1)" by (cases "randbelow m g")
  have j: "j < m" using randbelow_less[of m g] rb Suc.prems by simp
  let ?pool = "pool[j := pool ! (m - 1)]"
  obtain rest g2 where sl: "sample_loop r (m - 1) ?pool g1 = (rest, g2)"
    by (cases "sample_loop r (m - 1) ?pool g1")
  have "r \<le> m - 1" "m - 1 \<le> length ?pool" using Suc.prems by simp_all
  from Suc.IH[OF this, of g1] sl
  have ih: "length rest = r" "mset rest \<subseteq># mset (take (m - 1) ?pool)" by simp_all
  have res: "fst (sample_loop (Suc r) m pool g) = pool ! j # rest"
    using rb sl by simp
  have "add_mset (pool ! j) (mset rest) \<subseteq># add_mset (pool ! j) (mset (take (m - 1) ?pool))"
    using ih(2) by simp
  then have "add_mset (pool ! j) (mset rest) \<subseteq># mset (take m pool)"
    by (simp only: mset_take_vacate[OF j Suc.prems(2)])
  then have "mset (pool ! j # rest) \<subseteq># mset (take m pool)"
    by simp
  then show ?case using res ih(1) by simp
qed

lemma format_for_client_questions:
  "map view_question (fst (format_for_client qs g)) = map question qs \<and>
   map correct (fst (format_for_client qs g)) = map correct_answer qs \<and>
   length (fst (format_for_client qs g)) = length qs"
proof (induction qs arbitrary: g)
  case Nil
  then show ?case by simp
next
  case (Cons q qs)
  obtain shuffled g1 where sh: "random_shuffle (incorrect_answers q @ [correct_answer q]) g = (shuffled, g1)"
    by (cases "random_shuffle (incorrect_answers q @ [correct_answer q]) g")
  obtain rest g2 where r: "format_for_client qs g1 = (rest, g2)"
    by (cases "format_for_client qs g1")
  from Cons.IH[of g1] r show ?case using sh by simp
qed

lemma length_banks: "length FALLBACK_EASY = 40" "length FALLBACK_MEDIUM = 20" "length FALLBACK_HARD = 15"
  by (simp_all add: FALLBACK_EASY_def FALLBACK_MEDIUM_def FALLBACK_HARD_def)

subsection \<open>Draws and selections of the sample loop\<close>

lemma distinct_sub_mset:
  assumes "mset xs \<subseteq># mset ys" "distinct ys"
  shows "distinct xs"
proof -
  have "count (mset xs) a \<le> 1" for a
  proof -
    have "count (mset xs) a \<le> count (mset ys) a" using assms(1) by (rule mset_subset_eq_count)
    also have "\<dots> \<le> 1" using assms(2) by (simp add: distinct_count_atmost_1)
    finally show ?thesis .
  qed
  then show ?thesis
    by (metis count_greater_zero_iff distinct_count_atmost_1 le_neq_implies_less less_one not_gr_zero set_mset_mset antisym_conv2 le_zero_eq)
qed

lemma sample_draws_Suc:
  "sample_draws (Suc r) m g = (shd g mod m) # sample_draws r (m - 1) (stl g)"
proof -
  have "[0..<Suc r] = 0 # map Suc [0..<r]"
    by (simp add: upt_conv_Cons map_Suc_upt del: upt_Suc)
  then show ?thesis by (simp add: sample_draws_def comp_def del: upt_Suc)
qed

lemma sample_loop_Suc:
  "fst (sample_loop (Suc r) m pool g) =
     pool ! (shd g mod m) #
       fst (sample_loop r (m - 1) (pool[shd g mod m := pool ! (m - 1)]) (stl g))"
  by (simp add: randbelow_def Let_def split: prod.splits)

lemma sample_loop_by_draws:
  "sample_draws r m g = sample_draws r m g' \<Longrightarrow>
   fst (sample_loop r m pool g) = fst (sample_loop r m pool g')"
proof (induction r arbitrary: m pool g g')
  case 0
  then show ?case by simp
next
  case (Suc r)
  from Suc.prems have h: "shd g mod m = shd g' mod m"
    and t: "sample_draws r (m - 1) (stl g) = sample_draws r (m - 1) (stl g')"
    by (simp_all add: sample_draws_Suc)
  show ?case
    unfolding sample_loop_Suc using h Suc.IH[OF t] by simp
qed

lemma distinct_vacate:
  assumes "j < m" "m \<le> length pool" "distinct (take m pool)"
  shows "distinct (take (m - 1) (pool[j := pool ! (m - 1)]))"
    and "set (take (m - 1) (pool[j := pool ! (m - 1)])) = set (take m pool) - {pool ! j}"
proof -
  let ?p = "take (m - 1) (pool[j := pool ! (m - 1)])"
  have e: "add_mset (pool ! j) (mset ?p) = mset (take m pool)"
    using mset_take_vacate[OF assms(1,2)] .
  then have d: "distinct (pool ! j # ?p)"
    using assms(3) by (metis distinct_count_atmost_1 mset.simps(2) set_mset_mset mset_eq_setD)
  then show "distinct ?p" by simp
  have "set (pool ! j # ?p) = set (take m pool)"
    using e by (metis mset.simps(2) mset_eq_setD)
  then show "set ?p = set (take m pool) - {pool ! j}" using d by auto
qed

lemma sample_loop_inj:
  "r \<le> m \<Longrightarrow> m \<le> length pool \<Longrightarrow> distinct (take m pool) \<Longrightarrow>
   fst (sample_loop r m pool g) = fst (sample_loop r m pool g') \<Longrightarrow>
   sample_draws r m g = sample_draws r m g'"
proof (induction r arbitrary: m pool g g')
  case 0
  then show ?case by (simp add: sample_draws_def)
next
  case (Suc r)
  let ?j = "shd g mod m" and ?j' = "shd g' mod m"
  have m: "0 < m" using Suc.prems(1) by simp
  then have j: "?j < m" "?j' < m" by simp_all
  from Suc.prems(4) have hd: "pool ! ?j = pool ! ?j'"
    and tl: "fst (sample_loop r (m - 1) (pool[?j := pool ! (m - 1)]) (stl g)) =
             fst (sample_loop r (m - 1) (pool[?j' := pool ! (m - 1)]) (stl g'))"
    unfolding sample_loop_Suc by simp_all
  have "take m pool ! ?j = take m pool ! ?j'" using hd j by simp
  moreover have "?j < length (take m pool)" "?j' < length (take m pool)"
    using j Suc.prems(2) by simp_all
  ultimately have jj: "?j = ?j'"
    using Suc.prems(3) nth_eq_iff_index_eq by blast
  have "sample_draws r (m - 1) (stl g) = sample_draws r (m - 1) (stl g')"
  proof (rule Suc.IH)
    show "r \<le> m - 1" using Suc.prems(1) by simp
    show "m - 1 \<le> length (pool[?j := pool ! (m - 1)])" using Suc.prems(2) by simp
    show "distinct (take (m - 1) (pool[?j := pool ! (m - 1)]))"
      using distinct_vacate(1)[OF j(1) Suc.prems(2,3)] .
    show "fst (sample_loop r (m - 1) (pool[?j := pool ! (m - 1)]) (stl g)) =
          fst (sample_loop r (m - 1) (pool[?j := pool ! (m - 1)]) (stl g'))"
      using tl jj by simp
  qed
  then show ?case using jj by (simp add: sample_draws_Suc)
qed

lemma sample_loop_surj:
  "r \<le> m \<Longrightarrow> m \<le> length pool \<Longrightarrow> distinct (take m pool) \<Longrightarrow>
   length ps = r \<Longrightarrow> distinct ps \<Longrightarrow> set ps \<subseteq> set (take m pool) \<Longrightarrow>
   \<exists>g. fst (sample_loop r m pool g) = ps"
proof (induction r arbitrary: m pool ps)
  case 0
  then show ?case by simp
next
  case (Suc r)
  from Suc.prems(4) obtain p ps' where ps: "ps = p # ps'" "length ps' = r"
    by (cases ps) auto
  have "p \<in> set (take m pool)" using Suc.prems(6) ps by simp
  then obtain j where j: "j < length (take m pool)" "take m pool ! j = p"
    by (auto simp: in_set_conv_nth)
  then have jm: "j < m" and pj: "pool ! j = p" using Suc.prems(2) by simp_all
  let ?pool = "pool[j := pool ! (m - 1)]"
  have "\<exists>g. fst (sample_loop r (m - 1) ?pool g) = ps'"
  proof (rule Suc.IH)
    show "r \<le> m - 1" using Suc.prems(1) by simp
    show "m - 1 \<le> length ?pool" using Suc.prems(2) by simp
    show "distinct (take (m - 1) ?pool)"
      using distinct_vacate(1)[OF jm Suc.prems(2,3)] .
    show "length ps' = r" by (rule ps(2))
    show "distinct ps'" using Suc.prems(5) ps by simp
    show "set ps' \<subseteq> set (take (m - 1) ?pool)"
      using distinct_vacate(2)[OF jm Suc.prems(2,3)] Suc.prems(5,6) ps pj by auto
  qed
  then obtain g' where g': "fst (sample_loop r (m - 1) ?pool g') = ps'" by blast
  have "fst (sample_loop (Suc r) m pool (j ## g')) = ps"
    unfolding sample_loop_Suc using jm pj g' ps by simp
  then show ?case by blast
qed

lemma sample_loop_map:
  "r \<le> m \<Longrightarrow> m \<le> length xs \<Longrightarrow>
   fst (sample_loop r m (map f xs) g) = map f (fst (sample_loop r m xs g))"
proof (induction r arbitrary: m xs g)
  case 0
  then show ?case by simp
next
  case (Suc r)
  let ?j = "shd g mod m"
  have j: "?j < m" using Suc.prems(1) by simp
  then have l: "?j < length xs" "m - 1 < length xs" using Suc.prems by linarith+
  have u: "(map f xs)[?j := map f xs ! (m - 1)] = map f (xs[?j := xs ! (m - 1)])"
    using l by (simp add: map_update)
  have "fst (sample_loop r (m - 1) (map f (xs[?j := xs ! (m - 1)])) (stl g)) =
        map f (fst (sample_loop r (m - 1) (xs[?j := xs ! (m - 1)]) (stl g)))"
    using Suc.prems by (intro Suc.IH) simp_all
  then show ?case unfolding sample_loop_Suc u using l by simp
qed

lemma sample_loop_positions:
  assumes "k \<le> length pool"
  shows "fst (sample_loop k (length pool) pool g) =
           map ((!) pool) (fst (sample_loop k (length pool) [0..<length pool] g))"
proof -
  have "fst (sample_loop k (length pool) (map ((!) pool) [0..<length pool]) g) =
          map ((!) pool) (fst (sample_loop k (length pool) [0..<length pool] g))"
    using assms by (intro sample_loop_map) simp_all
  then show ?thesis by (simp add: map_nth)
qed

lemma sample_loop_positions_distinct:
  assumes "k \<le> n"
  shows "length (fst (sample_loop k n [0..<n] g)) = k \<and>
         distinct (fst (sample_loop k n [0..<n] g)) \<and>
         set (fst (sample_loop k n [0..<n] g)) \<subseteq> {..<n}"
proof -
  have s: "length (fst (sample_loop k n [0..<n] g)) = k"
    "mset (fst (sample_loop k n [0..<n] g)) \<subseteq># mset (take n [0..<n])"
    using sample_loop_sub[of k n "[0..<n]" g] assms by simp_all
  then have m: "mset (fst (sample_loop k n [0..<n] g)) \<subseteq># mset [0..<n]" by simp
  have "set_mset (mset (fst (sample_loop k n [0..<n] g))) \<subseteq> set_mset (mset [0..<n])"
    using m by (rule set_mset_mono)
  then have "set (fst (sample_loop k n [0..<n] g)) \<subseteq> {..<n}" by auto
  moreover have "distinct (fst (sample_loop k n [0..<n] g))"
    using distinct_sub_mset[OF m] by simp
  ultimately show ?thesis using s(1) by simp
qed

subsection \<open>The redrawing loop\<close>

lemma redraw_step:
  "redraw n selected g =
     (if shd g mod n \<in> selected then redraw n selected (stl g) else Some (shd g mod n, stl g))"
  by (subst redraw.simps) (simp add: randbelow_def)

lemma redraw_first:
  "g !! m mod n \<notin> selected \<Longrightarrow> \<forall>i<m. g !! i mod n \<in> selected \<Longrightarrow>
   redraw n selected g = Some (g !! m mod n, sdrop (Suc m) g)"
proof (induction m arbitrary: g)
  case 0
  then show ?case by (subst redraw_step) simp
next
  case (Suc m)
  have h: "shd g mod n \<in> selected" using Suc.prems(2) by (metis snth.simps(1) zero_less_Suc)
  have "redraw n selected (stl g) = Some (stl g !! m mod n, sdrop (Suc m) (stl g))"
  proof (rule Suc.IH)
    show "stl g !! m mod n \<notin> selected" using Suc.prems(1) by simp
    show "\<forall>i<m. stl g !! i mod n \<in> selected"
    proof (intro allI impI)
      fix i assume "i < m"
      then have "Suc i < Suc m" by simp
      then have "g !! Suc i mod n \<in> selected" using Suc.prems(2) by blast
      then show "stl g !! i mod n \<in> selected" by simp
    qed
  qed
  then show ?case using h by (subst redraw_step) simp
qed

lemma redraw_Some_exists:
  assumes "redraw n selected g = Some y"
  shows "\<exists>i. g !! i mod n \<notin> selected"
proof (rule redraw.raw_induct[where P = "\<lambda>n selected g y. \<exists>i. g !! i mod n \<notin> selected", OF _ assms])
  fix rd :: "nat \<Rightarrow> nat set \<Rightarrow> rng \<Rightarrow> (nat \<times> rng) option" and n selected g y
  assume ih: "\<And>n selected g y. rd n selected g = Some y \<Longrightarrow> \<exists>i. g !! i mod n \<notin> selected"
    and b: "(let (j, g1) = randbelow n g
             in if j \<in> selected then rd n selected g1 else Some (j, g1)) = Some y"
  show "\<exists>i. g !! i mod n \<notin> selected"
  proof (cases "shd g mod n \<in> selected")
    case True
    then have "rd n selected (stl g) = Some y" using b by (simp add: randbelow_def)
    from ih[OF this] obtain i where "stl g !! i mod n \<notin> selected" by blast
    then have "g !! Suc i mod n \<notin> selected" by simp
    then show ?thesis by blast
  next
    case False
    then have "g !! 0 mod n \<notin> selected" by simp
    then show ?thesis by blast
  qed
qed

lemma redraw_None:
  "\<forall>i. g !! i mod n \<in> selected \<Longrightarrow> redraw n selected g = None"
  using redraw_Some_exists[of n selected g] by (cases "redraw n selected g") auto

lemma redraw_least:
  assumes "\<exists>i. g !! i mod n \<notin> selected"
  shows "redraw n selected g =
           Some (g !! (LEAST i. g !! i mod n \<notin> selected) mod n,
                 sdrop (Suc (LEAST i. g !! i mod n \<notin> selected)) g)"
proof (rule redraw_first)
  show "g !! (LEAST i. g !! i mod n \<notin> selected) mod n \<notin> selected"
    using assms by (rule LeastI_ex)
  show "\<forall>i<LEAST i. g !! i mod n \<notin> selected. g !! i mod n \<in> selected"
    using not_less_Least by blast
qed

lemma redraw_SomeD:
  assumes "redraw n selected g = Some (j, g1)"
  shows "\<exists>m. j = g !! m mod n \<and> g1 = sdrop (Suc m) g \<and> j \<notin> selected \<and>
             (\<forall>i<m. g !! i mod n \<in> selected)"
proof -
  have e: "\<exists>i. g !! i mod n \<notin> selected" using redraw_Some_exists[OF assms] .
  let ?m = "LEAST i. g !! i mod n \<notin> selected"
  have "j = g !! ?m mod n" "g1 = sdrop (Suc ?m) g"
    using redraw_least[OF e] assms by simp_all
  moreover have "g !! ?m mod n \<notin> selected" using e by (rule LeastI_ex)
  moreover have "\<forall>i<?m. g !! i mod n \<in> selected" using not_less_Least by blast
  ultimately show ?thesis by blast
qed

lemma fair_tape_sdrop: "fair_tape n g \<Longrightarrow> fair_tape n (sdrop m g)"
  unfolding fair_tape_def
proof (intro allI impI)
  fix v k assume f: "\<forall>v<n. \<forall>k. \<exists>i\<ge>k. g !! i mod n = v" and v: "v < n"
  then obtain i where i: "k + m \<le> i" "g !! i mod n = v" by blast
  then have "k \<le> i - m" "sdrop m g !! (i - m) mod n = v" by (simp_all add: sdrop_snth)
  then show "\<exists>i\<ge>k. sdrop m g !! i mod n = v" by blast
qed

lemma fair_tape_redraw:
  assumes "fair_tape n g" "v < n" "v \<notin> selected"
  shows "\<exists>j g1. redraw n selected g = Some (j, g1) \<and> j < n \<and> j \<notin> selected \<and> fair_tape n g1"
proof -
  from assms(1,2) obtain i where "g !! i mod n = v" unfolding fair_tape_def by blast
  then have e: "\<exists>i. g !! i mod n \<notin> selected" using assms(3) by blast
  let ?m = "LEAST i. g !! i mod n \<notin> selected"
  have "g !! ?m mod n \<notin> selected" using e by (rule LeastI_ex)
  moreover have "g !! ?m mod n < n" using assms(2) by simp
  moreover have "fair_tape n (sdrop (Suc ?m) g)" using assms(1) by (rule fair_tape_sdrop)
  ultimately show ?thesis using redraw_least[OF e] by blast
qed

lemma redraw_below:
  assumes "redraw n selected g = Some (j, g1)" "0 < n"
  shows "j < n" "j \<notin> selected"
  using redraw_SomeD[OF assms(1)] assms(2) by auto

lemma sample_set_loop_sound:
  "sample_set_loop r n [0..<n] selected g = Some (ps, g') \<Longrightarrow> 0 < n \<Longrightarrow>
   length ps = r \<and> distinct ps \<and> set ps \<subseteq> {..<n} \<and> set ps \<inter> selected = {}"
proof (induction r arbitrary: selected g ps)
  case 0
  then show ?case by simp
next
  case (Suc r)
  from Suc.prems(1) obtain j g1 where rd: "redraw n selected g = Some (j, g1)"
    by (cases "redraw n selected g") auto
  from Suc.prems(1) rd obtain rest where
    sl: "sample_set_loop r n [0..<n] (insert j selected) g1 = Some (rest, g')"
    and ps: "ps = [0..<n] ! j # rest"
    by (cases "sample_set_loop r n [0..<n] (insert j selected) g1") auto
  note j = redraw_below[OF rd Suc.prems(2)]
  from Suc.IH[OF sl Suc.prems(2)]
  have ih: "length rest = r" "distinct rest" "set rest \<subseteq> {..<n}" "set rest \<inter> insert j selected = {}"
    by simp_all
  have "ps = j # rest" using ps j(1) by simp
  then show ?case using ih j by auto
qed

lemma sample_set_loop_positions:
  "0 < n \<Longrightarrow>
   sample_set_loop r n population selected g =
     map_option (\<lambda>(ps, g'). (map ((!) population) ps, g'))
       (sample_set_loop r n [0..<n] selected g)"
proof (induction r arbitrary: selected g)
  case 0
  then show ?case by simp
next
  case (Suc r)
  show ?case
  proof (cases "redraw n selected g")
    case None
    then show ?thesis by simp
  next
    case (Some y)
    obtain j g1 where y: "y = (j, g1)" by (cases y)
    have j: "j < n" using redraw_below(1)[of n selected g j g1] Some y Suc.prems by simp
    show ?thesis
      using Some y j Suc.IH[OF Suc.prems, of "insert j selected" g1]
      by (cases "sample_set_loop r n [0..<n] (insert j selected) g1") auto
  qed
qed

lemma sample_set_loop_fair:
  "fair_tape n g \<Longrightarrow> selected \<subseteq> {..<n} \<Longrightarrow> card selected + r \<le> n \<Longrightarrow>
   \<exists>ps g'. sample_set_loop r n [0..<n] selected g = Some (ps, g')"
proof (induction r arbitrary: selected g)
  case 0
  then show ?case by simp
next
  case (Suc r)
  have fin: "finite selected" using Suc.prems(2) by (rule finite_subset) simp
  have "card selected < card {..<n}" using Suc.prems(3) by simp
  then have "selected \<noteq> {..<n}" by blast
  then obtain v where v: "v < n" "v \<notin> selected" using Suc.prems(2) by blast
  from fair_tape_redraw[OF Suc.prems(1) v] obtain j g1 where
    rd: "redraw n selected g = Some (j, g1)" "j < n" "j \<notin> selected" "fair_tape n g1" by blast
  have "card (insert j selected) + r \<le> n" using fin rd(3) Suc.prems(3) by simp
  moreover have "insert j selected \<subseteq> {..<n}" using rd(2) Suc.prems(2) by simp
  ultimately obtain rest g2 where
    "sample_set_loop r n [0..<n] (insert j selected) g1 = Some (rest, g2)"
    using Suc.IH[OF rd(4)] by blast
  then show ?case using rd(1) by simp
qed

lemma sample_set_loop_reach:
  "distinct ps \<Longrightarrow> set ps \<subseteq> {..<n} \<Longrightarrow> set ps \<inter> selected = {} \<Longrightarrow>
   sample_set_loop (length ps) n [0..<n] selected (ps @- g) = Some (ps, g)"
proof (induction ps arbitrary: selected)
  case Nil
  then show ?case by simp
next
  case (Cons p ps)
  have p: "p < n" "p \<notin> selected" using Cons.prems by auto
  then have rd: "redraw n selected ((p # ps) @- g) = Some (p, ps @- g)"
    by (subst redraw_step) simp
  have "sample_set_loop (length ps) n [0..<n] (insert p selected) (ps @- g) = Some (ps, g)"
    using Cons.prems by (intro Cons.IH) auto
  then show ?case using rd p by simp
qed

lemma relabel_snth:
  assumes "bij_betw p {..<n} {..<n}" "0 < n"
  shows "relabel p n g !! i mod n = p (g !! i mod n)"
proof -
  have "g !! i mod n \<in> {..<n}" using assms(2) by simp
  then have "p (g !! i mod n) \<in> {..<n}" using assms(1) bij_betwE by blast
  then have "p (g !! i mod n) mod n = p (g !! i mod n)" by simp
  moreover have "p (g !! i mod n) < n" using \<open>p (g !! i mod n) \<in> {..<n}\<close> by simp
  ultimately show ?thesis by (simp add: relabel_def)
qed

lemma relabel_sdrop: "sdrop m (relabel p n g) = relabel p n (sdrop m g)"
  by (simp add: relabel_def sdrop_smap)

lemma relabel_mem:
  assumes "bij_betw p {..<n} {..<n}" "selected \<subseteq> {..<n}" "x < n"
  shows "p x \<in> p ` selected \<longleftrightarrow> x \<in> selected"
proof -
  have "inj_on p {..<n}" using assms(1) by (rule bij_betw_imp_inj_on)
  then show ?thesis using assms(2,3) by (auto dest: inj_onD)
qed

lemma redraw_relabel:
  assumes "bij_betw p {..<n} {..<n}" "selected \<subseteq> {..<n}" "0 < n"
  shows "redraw n (p ` selected) (relabel p n g) =
           map_option (\<lambda>(j, g1). (p j, relabel p n g1)) (redraw n selected g)"
proof -
  have iff: "relabel p n g !! i mod n \<notin> p ` selected \<longleftrightarrow> g !! i mod n \<notin> selected" for i
    using relabel_snth[OF assms(1,3), of g i] relabel_mem[OF assms(1,2), of "g !! i mod n"] assms(3)
    by simp
  show ?thesis
  proof (cases "\<exists>i. g !! i mod n \<notin> selected")
    case True
    then have t: "\<exists>i. relabel p n g !! i mod n \<notin> p ` selected" using iff by simp
    have l: "(LEAST i. relabel p n g !! i mod n \<notin> p ` selected) =
             (LEAST i. g !! i mod n \<notin> selected)"
      by (simp only: iff)
    show ?thesis
      unfolding redraw_least[OF True] redraw_least[OF t] l
      by (simp add: relabel_snth[OF assms(1,3)] relabel_sdrop del: sdrop.simps)
  next
    case False
    then have "\<forall>i. g !! i mod n \<in> selected" by simp
    moreover from this have "\<forall>i. relabel p n g !! i mod n \<in> p ` selected" using iff by simp
    ultimately show ?thesis by (simp add: redraw_None)
  qed
qed

lemma sample_set_loop_relabel:
  assumes "bij_betw p {..<n} {..<n}" "0 < n"
  shows "selected \<subseteq> {..<n} \<Longrightarrow>
         sample_set_loop r n [0..<n] (p ` selected) (relabel p n g) =
           map_option (\<lambda>(ps, g'). (map p ps, relabel p n g'))
             (sample_set_loop r n [0..<n] selected g)"
proof (induction r arbitrary: selected g)
  case 0
  then show ?case by simp
next
  case (Suc r)
  note rr = redraw_relabel[OF assms(1) Suc.prems assms(2), of g]
  show ?case
  proof (cases "redraw n selected g")
    case None
    then show ?thesis using rr by simp
  next
    case (Some y)
    obtain j g1 where y: "y = (j, g1)" by (cases y)
    have j: "j < n" using redraw_below(1)[of n selected g j g1] Some y assms(2) by simp
    then have pj: "p j < n" using assms(1) bij_betwE by fastforce
    have ins: "insert j selected \<subseteq> {..<n}" using j Suc.prems by simp
    have i2: "insert (p j) (p ` selected) = p ` insert j selected" by simp
    show ?thesis
      using Some y rr j pj Suc.IH[OF ins, of g1]
      by (cases "sample_set_loop r n [0..<n] (insert j selected) g1") (auto simp: i2 simp del: image_insert)
  qed
qed

subsection \<open>Draws and orders of the shuffle\<close>

lemma swap_at_nth:
  "i < length xs \<Longrightarrow> j < length xs \<Longrightarrow> k < length xs \<Longrightarrow>
   swap_at xs i j ! k = (if k = j then xs ! i else if k = i then xs ! j else xs ! k)"
  by (simp add: swap_at_def nth_list_update)

lemma swap_at_map:
  "i < length xs \<Longrightarrow> j < length xs \<Longrightarrow> swap_at (map f xs) i j = map f (swap_at xs i j)"
  by (simp add: swap_at_def map_update)

lemma distinct_swap_at:
  "i < length xs \<Longrightarrow> j < length xs \<Longrightarrow> distinct xs \<Longrightarrow> distinct (swap_at xs i j)"
  using mset_eq_imp_distinct_iff[OF mset_swap_at[of i xs j]] by simp

lemma shuffle_loop_Suc:
  "fst (shuffle_loop (Suc i) x g) =
     fst (shuffle_loop i (swap_at x (Suc i) (shd g mod (Suc i + 1))) (stl g))"
  by (simp add: randbelow_def)

lemma shuffle_loop_length:
  "length (fst (shuffle_loop i x g)) = length x"
proof (induction i arbitrary: x g)
  case 0
  then show ?case by simp
next
  case (Suc i)
  show ?case unfolding shuffle_loop_Suc by (simp add: Suc.IH length_swap_at)
qed

lemma shuffle_loop_frozen:
  "i < k \<Longrightarrow> k < length x \<Longrightarrow> fst (shuffle_loop i x g) ! k = x ! k"
proof (induction i arbitrary: x g)
  case 0
  then show ?case by simp
next
  case (Suc i)
  let ?j = "shd g mod (Suc i + 1)"
  have j: "?j < Suc i + 1" by simp
  then have jl: "?j < length x" "?j \<noteq> k" using Suc.prems by linarith+
  have "fst (shuffle_loop i (swap_at x (Suc i) ?j) (stl g)) ! k = swap_at x (Suc i) ?j ! k"
    using Suc.prems by (intro Suc.IH) (simp_all add: length_swap_at)
  also have "\<dots> = x ! k"
    using Suc.prems jl by (subst swap_at_nth) auto
  finally show ?case unfolding shuffle_loop_Suc .
qed

lemma shuffle_loop_map:
  "i < length xs \<Longrightarrow> fst (shuffle_loop i (map f xs) g) = map f (fst (shuffle_loop i xs g))"
proof (induction i arbitrary: xs g)
  case 0
  then show ?case by simp
next
  case (Suc i)
  let ?j = "shd g mod (Suc i + 1)"
  have "?j < Suc i + 1" by simp
  then have j: "?j < length xs" using Suc.prems by linarith
  have "swap_at (map f xs) (Suc i) ?j = map f (swap_at xs (Suc i) ?j)"
    using Suc.prems j by (rule swap_at_map)
  moreover have "fst (shuffle_loop i (map f (swap_at xs (Suc i) ?j)) (stl g)) =
                 map f (fst (shuffle_loop i (swap_at xs (Suc i) ?j) (stl g)))"
    using Suc.prems by (intro Suc.IH) (simp add: length_swap_at)
  ultimately show ?case unfolding shuffle_loop_Suc by simp
qed

lemma shuffle_loop_by_draws:
  "sample_draws i (Suc i) g = sample_draws i (Suc i) g' \<Longrightarrow>
   fst (shuffle_loop i x g) = fst (shuffle_loop i x g')"
proof (induction i arbitrary: x g g')
  case 0
  then show ?case by simp
next
  case (Suc i)
  from Suc.prems have h: "shd g mod (Suc i + 1) = shd g' mod (Suc i + 1)"
    and t: "sample_draws i (Suc i) (stl g) = sample_draws i (Suc i) (stl g')"
    by (simp_all add: sample_draws_Suc)
  show ?case unfolding shuffle_loop_Suc using h Suc.IH[OF t] by simp
qed

lemma shuffle_loop_inj:
  "i < length x \<Longrightarrow> distinct x \<Longrightarrow>
   fst (shuffle_loop i x g) = fst (shuffle_loop i x g') \<Longrightarrow>
   sample_draws i (Suc i) g = sample_draws i (Suc i) g'"
proof (induction i arbitrary: x g g')
  case 0
  then show ?case by (simp add: sample_draws_def)
next
  case (Suc i)
  let ?j = "shd g mod (Suc i + 1)" and ?j' = "shd g' mod (Suc i + 1)"
  have j: "?j < Suc i + 1" "?j' < Suc i + 1" by simp_all
  then have jl: "?j < length x" "?j' < length x" using Suc.prems(1) by linarith+
  have "fst (shuffle_loop i (swap_at x (Suc i) ?j) (stl g)) ! Suc i = swap_at x (Suc i) ?j ! Suc i"
    using Suc.prems(1) by (intro shuffle_loop_frozen) (simp_all add: length_swap_at)
  also have "\<dots> = x ! ?j"
    using Suc.prems(1) jl by (subst swap_at_nth) auto
  finally have a: "fst (shuffle_loop (Suc i) x g) ! Suc i = x ! ?j" unfolding shuffle_loop_Suc .
  have "fst (shuffle_loop i (swap_at x (Suc i) ?j') (stl g')) ! Suc i = swap_at x (Suc i) ?j' ! Suc i"
    using Suc.prems(1) by (intro shuffle_loop_frozen) (simp_all add: length_swap_at)
  also have "\<dots> = x ! ?j'"
    using Suc.prems(1) jl by (subst swap_at_nth) auto
  finally have b: "fst (shuffle_loop (Suc i) x g') ! Suc i = x ! ?j'" unfolding shuffle_loop_Suc .
  have "x ! ?j = x ! ?j'" using a b Suc.prems(3) by simp
  then have jj: "?j = ?j'" using Suc.prems(2) jl nth_eq_iff_index_eq by blast
  have "sample_draws i (Suc i) (stl g) = sample_draws i (Suc i) (stl g')"
  proof (rule Suc.IH)
    show "i < length (swap_at x (Suc i) ?j)" using Suc.prems(1) by (simp add: length_swap_at)
    show "distinct (swap_at x (Suc i) ?j)" using Suc.prems(1,2) jl by (intro distinct_swap_at)
    show "fst (shuffle_loop i (swap_at x (Suc i) ?j) (stl g)) =
          fst (shuffle_loop i (swap_at x (Suc i) ?j) (stl g'))"
      using Suc.prems(3) jj unfolding shuffle_loop_Suc by simp
  qed
  then show ?case using jj by (simp add: sample_draws_Suc)
qed

lemma eq_from_tail:
  assumes "mset y = mset x" "\<forall>k. 0 < k \<and> k < length x \<longrightarrow> y ! k = x ! k"
  shows "y = x"
proof (cases x)
  case Nil
  then show ?thesis using assms(1) by simp
next
  case (Cons a xs)
  have l: "length y = length x" using assms(1) by (rule mset_eq_length)
  then obtain b ys where y: "y = b # ys" using Cons by (cases y) auto
  have "ys = xs"
  proof (rule nth_equalityI)
    show "length ys = length xs" using l y Cons by simp
    fix k assume "k < length ys"
    then have "0 < Suc k \<and> Suc k < length x" using l y by simp
    then have "y ! Suc k = x ! Suc k" using assms(2) by blast
    then show "ys ! k = xs ! k" using y Cons by simp
  qed
  then have "b = a" using assms(1) y Cons by simp
  then show ?thesis using y Cons \<open>ys = xs\<close> by simp
qed

lemma shuffle_loop_surj:
  "i < length x \<Longrightarrow> distinct x \<Longrightarrow> mset y = mset x \<Longrightarrow>
   \<forall>k. i < k \<and> k < length x \<longrightarrow> y ! k = x ! k \<Longrightarrow>
   \<exists>g. fst (shuffle_loop i x g) = y"
proof (induction i arbitrary: x)
  case 0
  then have "y = x" by (intro eq_from_tail) simp_all
  then show ?case by simp
next
  case (Suc i)
  have l: "length y = length x" using Suc.prems(3) by (rule mset_eq_length)
  have dy: "distinct y" using mset_eq_imp_distinct_iff[OF Suc.prems(3)] Suc.prems(2) by simp
  have "y ! Suc i \<in> set y" using Suc.prems(1) l by simp
  then have "y ! Suc i \<in> set x" using mset_eq_setD[OF Suc.prems(3)] by simp
  then obtain j where j: "j < length x" "x ! j = y ! Suc i" by (auto simp: in_set_conv_nth)
  have jle: "j \<le> Suc i"
  proof (rule ccontr)
    assume "\<not> j \<le> Suc i"
    then have "Suc i < j" by simp
    then have "y ! j = x ! j" using Suc.prems(4) j(1) by blast
    then have "y ! j = y ! Suc i" using j(2) by simp
    moreover have "j < length y" "Suc i < length y" using j(1) l Suc.prems(1) by simp_all
    ultimately have "j = Suc i" using dy nth_eq_iff_index_eq by blast
    then show False using \<open>Suc i < j\<close> by simp
  qed
  let ?x = "swap_at x (Suc i) j"
  have "\<exists>g. fst (shuffle_loop i ?x g) = y"
  proof (rule Suc.IH)
    show "i < length ?x" using Suc.prems(1) by (simp add: length_swap_at)
    show "distinct ?x" using Suc.prems(1,2) j(1) by (intro distinct_swap_at)
    show "mset y = mset ?x" using Suc.prems(1,3) j(1) by (simp add: mset_swap_at)
    show "\<forall>k. i < k \<and> k < length ?x \<longrightarrow> y ! k = ?x ! k"
    proof (intro allI impI)
      fix k assume k: "i < k \<and> k < length ?x"
      then have kl: "k < length x" by (simp add: length_swap_at)
      show "y ! k = ?x ! k"
      proof (cases "k = Suc i")
        case True
        then show ?thesis using swap_at_nth[OF Suc.prems(1) j(1) kl] j(2) by auto
      next
        case False
        then have "Suc i < k" using k by simp
        then have "y ! k = x ! k" "k \<noteq> j" using Suc.prems(4) kl jle by auto
        then show ?thesis using swap_at_nth[OF Suc.prems(1) j(1) kl] False by simp
      qed
    qed
  qed
  then obtain g' where g': "fst (shuffle_loop i ?x g') = y" by blast
  have "shd (j ## g') mod (Suc i + 1) = j" using jle by simp
  then have "fst (shuffle_loop (Suc i) x (j ## g')) = y"
    unfolding shuffle_loop_Suc using g' by simp
  then show ?case by blast
qed

lemma random_shuffle_positions:
  "fst (random_shuffle x g) = map ((!) x) (shuffle_order (length x) g)"
proof (cases "x = []")
  case True
  then show ?thesis by (simp add: random_shuffle_def shuffle_order_def)
next
  case False
  then have "length x - 1 < length [0..<length x]" by simp
  then have "fst (shuffle_loop (length x - 1) (map ((!) x) [0..<length x]) g) =
             map ((!) x) (fst (shuffle_loop (length x - 1) [0..<length x] g))"
    by (rule shuffle_loop_map)
  then show ?thesis by (simp add: random_shuffle_def shuffle_order_def map_nth)
qed

lemma shuffle_order_by_draws:
  "sample_draws (n - 1) n ga = sample_draws (n - 1) n gb \<Longrightarrow>
   shuffle_order n ga = shuffle_order n gb"
proof (cases n)
  case 0
  then show ?thesis by (simp add: shuffle_order_def random_shuffle_def)
next
  case (Suc m)
  assume "sample_draws (n - 1) n ga = sample_draws (n - 1) n gb"
  then have "sample_draws m (Suc m) ga = sample_draws m (Suc m) gb" using Suc by simp
  then have "fst (shuffle_loop m [0..<n] ga) = fst (shuffle_loop m [0..<n] gb)"
    by (rule shuffle_loop_by_draws)
  then show ?thesis using Suc by (simp add: shuffle_order_def random_shuffle_def)
qed

lemma shuffle_order_inj:
  "shuffle_order n ga = shuffle_order n gb \<Longrightarrow>
   sample_draws (n - 1) n ga = sample_draws (n - 1) n gb"
proof (cases n)
  case 0
  then show ?thesis by (simp add: sample_draws_def)
next
  case (Suc m)
  assume "shuffle_order n ga = shuffle_order n gb"
  then have e: "fst (shuffle_loop m [0..<n] ga) = fst (shuffle_loop m [0..<n] gb)"
    using Suc by (simp add: shuffle_order_def random_shuffle_def)
  have "sample_draws m (Suc m) ga = sample_draws m (Suc m) gb"
    using Suc by (intro shuffle_loop_inj[OF _ _ e]) simp_all
  then show ?thesis using Suc by simp
qed

lemma shuffle_order_surj:
  assumes "mset ps = mset [0..<n]"
  shows "\<exists>g. shuffle_order n g = ps"
proof (cases n)
  case 0
  then show ?thesis using assms by (simp add: shuffle_order_def random_shuffle_def)
next
  case (Suc m)
  have l: "length ps = n" using mset_eq_length[OF assms] by simp
  have "\<exists>g. fst (shuffle_loop m [0..<n] g) = ps"
    using Suc assms by (intro shuffle_loop_surj) simp_all
  then show ?thesis using Suc by (simp add: shuffle_order_def random_shuffle_def)
qed

subsection \<open>The positions that sample selects\<close>

lemma sample_setsize_least: "21 \<le> sample_setsize k"
  by (simp add: sample_setsize_def)

lemma random_sample_error:
  "\<not> (0 \<le> k \<and> k \<le> int (length population)) \<Longrightarrow>
   random_sample population k g = Some (Inl ValueError, g)"
  by (simp add: random_sample_def)

lemma random_sample_pool:
  assumes "0 \<le> k" "k \<le> int (length population)" "length population \<le> sample_setsize (nat k)"
  shows "random_sample population k g =
           Some (Inr (fst (sample_loop (nat k) (length population) population g)),
                 snd (sample_loop (nat k) (length population) population g))"
  using assms by (simp add: random_sample_def split: prod.splits)

lemma random_sample_set:
  assumes "0 \<le> k" "k \<le> int (length population)" "sample_setsize (nat k) < length population"
  shows "random_sample population k g =
           map_option (\<lambda>(ps, g'). (Inr (map ((!) population) ps), g'))
             (sample_set_loop (nat k) (length population) [0..<length population] {} g)"
proof -
  have "0 < length population" using assms(3) by (cases population) simp_all
  then have n: "0 < length population" .
  show ?thesis
    using assms sample_set_loop_positions[OF n, of "nat k" population "{}" g]
    by (cases "sample_set_loop (nat k) (length population) [0..<length population] {} g")
      (auto simp: random_sample_def)
qed

lemma sample_positions_pool:
  assumes "k \<le> n" "n \<le> sample_setsize k"
  shows "sample_positions k n g = Some (fst (sample_loop k n [0..<n] g))"
  using assms random_sample_pool[of "int k" "[0..<n]" g] by (simp add: sample_positions_def)

lemma sample_positions_set:
  assumes "k \<le> n" "sample_setsize k < n"
  shows "sample_positions k n g = map_option fst (sample_set_loop k n [0..<n] {} g)"
proof -
  have "map ((!) [0..<n]) ps = ps" if "sample_set_loop k n [0..<n] {} g = Some (ps, g')" for ps g'
  proof -
    have "set ps \<subseteq> {..<n}" using sample_set_loop_sound[OF that] assms(2) by simp
    then have "\<forall>x\<in>set ps. [0..<n] ! x = x" by auto
    then show ?thesis by (simp add: map_idI)
  qed
  then show ?thesis
    using assms random_sample_set[of "int k" "[0..<n]" g]
    by (cases "sample_set_loop k n [0..<n] {} g") (auto simp: sample_positions_def)
qed

lemma sample_positions_error: "n < k \<Longrightarrow> sample_positions k n g = None"
  by (simp add: sample_positions_def random_sample_def)

lemma sample_positions_sound:
  assumes "sample_positions k n g = Some ps"
  shows "k \<le> n \<and> length ps = k \<and> distinct ps \<and> set ps \<subseteq> {..<n}"
proof -
  have k: "k \<le> n" using assms sample_positions_error[of n k g] by (cases "n < k") simp_all
  show ?thesis
  proof (cases "n \<le> sample_setsize k")
    case True
    then show ?thesis
      using assms k sample_positions_pool[OF k True, of g] sample_loop_positions_distinct[OF k, of g]
      by auto
  next
    case False
    then have s: "sample_setsize k < n" by simp
    then have n: "0 < n" by simp
    from assms obtain g' where "sample_set_loop k n [0..<n] {} g = Some (ps, g')"
      unfolding sample_positions_set[OF k s] by auto
    from sample_set_loop_sound[OF this n] show ?thesis using k by simp
  qed
qed

lemma sample_positions_total:
  assumes "k \<le> n" "n \<le> sample_setsize k \<or> fair_tape n g"
  shows "\<exists>ps. sample_positions k n g = Some ps"
proof (cases "n \<le> sample_setsize k")
  case True
  then show ?thesis using sample_positions_pool[OF assms(1) True] by simp
next
  case False
  then have s: "sample_setsize k < n" and f: "fair_tape n g" using assms(2) by simp_all
  have "\<exists>ps g'. sample_set_loop k n [0..<n] {} g = Some (ps, g')"
    using f assms(1) by (intro sample_set_loop_fair) simp_all
  then show ?thesis unfolding sample_positions_set[OF assms(1) s] by auto
qed

lemma sample_positions_reach:
  assumes "length ps = k" "distinct ps" "set ps \<subseteq> {..<n}"
  shows "\<exists>g. sample_positions k n g = Some ps"
proof -
  have "card (set ps) \<le> card {..<n}" using assms(3) by (intro card_mono) simp_all
  then have k: "k \<le> n" using assms(1,2) by (simp add: distinct_card)
  show ?thesis
  proof (cases "n \<le> sample_setsize k")
    case True
    have "\<exists>g. fst (sample_loop k n [0..<n] g) = ps"
      using k assms by (intro sample_loop_surj) (simp_all add: atLeast0LessThan)
    then show ?thesis using sample_positions_pool[OF k True] by auto
  next
    case False
    then have s: "sample_setsize k < n" by simp
    have "sample_set_loop (length ps) n [0..<n] {} (ps @- sconst 0) = Some (ps, sconst 0)"
      using assms(2,3) by (intro sample_set_loop_reach) simp_all
    then have "sample_positions k n (ps @- sconst 0) = Some ps"
      using assms(1) by (simp add: sample_positions_set[OF k s])
    then show ?thesis by blast
  qed
qed

lemma sample_positions_by_draws:
  assumes "k \<le> n" "n \<le> sample_setsize k"
  shows "sample_positions k n ga = sample_positions k n gb \<longleftrightarrow>
         sample_draws k n ga = sample_draws k n gb"
proof -
  have "fst (sample_loop k n [0..<n] ga) = fst (sample_loop k n [0..<n] gb) \<longleftrightarrow>
        sample_draws k n ga = sample_draws k n gb"
    using sample_loop_inj[of k n "[0..<n]" ga gb] sample_loop_by_draws[of k n ga gb "[0..<n]"] assms(1)
    by auto
  then show ?thesis by (simp add: sample_positions_pool[OF assms])
qed

lemma sample_positions_relabel:
  assumes "k \<le> n" "sample_setsize k < n" "bij_betw p {..<n} {..<n}"
  shows "sample_positions k n (relabel p n g) = map_option (map p) (sample_positions k n g)"
proof -
  have n: "0 < n" using assms(2) by simp
  have "sample_set_loop k n [0..<n] (p ` {}) (relabel p n g) =
          map_option (\<lambda>(ps, g'). (map p ps, relabel p n g')) (sample_set_loop k n [0..<n] {} g)"
    using assms(3) n by (rule sample_set_loop_relabel) simp
  then show ?thesis
    unfolding sample_positions_set[OF assms(1,2)]
    by (cases "sample_set_loop k n [0..<n] {} g") auto
qed

lemma mset_at_positions:
  assumes "distinct ps" "set ps \<subseteq> {..<length xs}"
  shows "mset (map ((!) xs) ps) \<subseteq># mset xs"
proof -
  have "mset ps = mset_set (set ps)" using assms(1) by (simp add: mset_set_set)
  moreover have "mset_set (set ps) \<subseteq># mset_set {0..<length xs}"
    using assms(2) by (intro subset_imp_msubset_mset_set) auto
  ultimately have "mset ps \<subseteq># mset [0..<length xs]" by simp
  then have "image_mset ((!) xs) (mset ps) \<subseteq># image_mset ((!) xs) (mset [0..<length xs])"
    by (rule image_mset_subseteq_mono)
  moreover have "image_mset ((!) xs) (mset [0..<length xs]) = mset (map ((!) xs) [0..<length xs])"
    by simp
  ultimately show ?thesis by (simp only: map_nth mset_map)
qed

lemma random_sample_positions:
  assumes "0 \<le> k" "k \<le> int (length population)"
  shows "random_sample population k g = None \<and>
           sample_positions (nat k) (length population) g = None \<or>
         (\<exists>ps g1. random_sample population k g = Some (Inr (map ((!) population) ps), g1) \<and>
            sample_positions (nat k) (length population) g = Some ps)"
proof (cases "length population \<le> sample_setsize (nat k)")
  case True
  have kn: "nat k \<le> length population" using assms by simp
  have "fst (sample_loop (nat k) (length population) population g) =
          map ((!) population) (fst (sample_loop (nat k) (length population) [0..<length population] g))"
    using kn by (rule sample_loop_positions)
  then show ?thesis
    using random_sample_pool[OF assms True, of g] sample_positions_pool[OF kn True, of g]
    by simp
next
  case False
  then have s: "sample_setsize (nat k) < length population" by simp
  have kn: "nat k \<le> length population" using assms by simp
  show ?thesis
    unfolding random_sample_set[OF assms s] sample_positions_set[OF kn s]
    by (cases "sample_set_loop (nat k) (length population) [0..<length population] {} g") auto
qed

subsection \<open>The tapes on which sample returns\<close>

lemma tape_positions_iff: "v \<in> tape_positions n g \<longleftrightarrow> (\<exists>i. g !! i mod n = v)"
  by (auto simp: tape_positions_def sset_range)

lemma tape_positions_below: "0 < n \<Longrightarrow> tape_positions n g \<subseteq> {..<n}"
  by (auto simp: tape_positions_def)

lemma fair_tape_positions:
  assumes "fair_tape n g" "0 < n"
  shows "tape_positions n g = {..<n}"
proof
  show "tape_positions n g \<subseteq> {..<n}" using assms(2) by (rule tape_positions_below)
  show "{..<n} \<subseteq> tape_positions n g"
  proof
    fix v assume "v \<in> {..<n}"
    then have "v < n" by simp
    then obtain i where "g !! i mod n = v" using assms(1) unfolding fair_tape_def by blast
    then show "v \<in> tape_positions n g" unfolding tape_positions_iff by blast
  qed
qed

lemma tape_positions_after_redraw:
  assumes "g !! m mod n \<notin> selected" "\<forall>i<m. g !! i mod n \<in> selected"
  shows "tape_positions n (sdrop (Suc m) g) - insert (g !! m mod n) selected =
         tape_positions n g - selected - {g !! m mod n}"
proof (intro set_eqI iffI)
  fix x assume "x \<in> tape_positions n (sdrop (Suc m) g) - insert (g !! m mod n) selected"
  then have "\<exists>i. sdrop (Suc m) g !! i mod n = x" and x: "x \<notin> selected" "x \<noteq> g !! m mod n"
    by (simp_all only: tape_positions_iff Diff_iff insert_iff de_Morgan_disj simp_thms)
  then obtain i where i: "sdrop (Suc m) g !! i mod n = x" by blast
  have "g !! (Suc m + i) mod n = x" using i by (simp add: sdrop_snth)
  then have "x \<in> tape_positions n g" unfolding tape_positions_iff by blast
  then show "x \<in> tape_positions n g - selected - {g !! m mod n}" using x by simp
next
  fix x assume "x \<in> tape_positions n g - selected - {g !! m mod n}"
  then have "\<exists>i. g !! i mod n = x" and x: "x \<notin> selected" "x \<noteq> g !! m mod n"
    by (simp_all only: tape_positions_iff Diff_iff insert_iff empty_iff simp_thms)
  then obtain i where i: "g !! i mod n = x" by blast
  have "\<not> i < m" using assms(2) i x(1) by blast
  moreover have "i \<noteq> m" using i x(2) by blast
  ultimately have "Suc m \<le> i" by simp
  then have "sdrop (Suc m) g !! (i - Suc m) = g !! i"
    unfolding sdrop_snth by (simp del: sdrop.simps snth.simps)
  then have "x \<in> tape_positions n (sdrop (Suc m) g)" unfolding tape_positions_iff using i by metis
  then show "x \<in> tape_positions n (sdrop (Suc m) g) - insert (g !! m mod n) selected"
    using x by simp
qed

lemma sample_set_loop_returns:
  "0 < n \<Longrightarrow>
   (sample_set_loop r n [0..<n] selected g \<noteq> None) = (r \<le> card (tape_positions n g - selected))"
proof (induction r arbitrary: selected g)
  case 0
  then show ?case by simp
next
  case (Suc r)
  have fin: "finite (tape_positions n g - selected)"
    using tape_positions_below[OF Suc.prems, of g] by (meson finite_Diff finite_lessThan finite_subset)
  show ?case
  proof (cases "\<exists>i. g !! i mod n \<notin> selected")
    case False
    then have "redraw n selected g = None" by (intro redraw_None) simp
    moreover have "tape_positions n g - selected = {}"
      using False by (auto simp: tape_positions_iff)
    then have "card (tape_positions n g - selected) = 0" by (simp only: card.empty)
    ultimately show ?thesis by (simp del: Diff_eq_empty_iff)
  next
    case True
    let ?m = "LEAST i. g !! i mod n \<notin> selected"
    let ?j = "g !! ?m mod n"
    have j: "?j \<notin> selected" using True by (rule LeastI_ex)
    have b: "\<forall>i<?m. g !! i mod n \<in> selected" using not_less_Least by blast
    have rd: "redraw n selected g = Some (?j, sdrop (Suc ?m) g)" using True by (rule redraw_least)
    have "?j \<in> tape_positions n g" unfolding tape_positions_iff by blast
    then have jin: "?j \<in> tape_positions n g - selected" using j by simp
    have "card (tape_positions n (sdrop (Suc ?m) g) - insert ?j selected) =
          card (tape_positions n g - selected) - 1"
      unfolding tape_positions_after_redraw[OF j b] using jin by (rule card_Diff_singleton)
    moreover have "0 < card (tape_positions n g - selected)"
      using jin fin card_gt_0_iff[of "tape_positions n g - selected"] by blast
    ultimately have c: "(r \<le> card (tape_positions n (sdrop (Suc ?m) g) - insert ?j selected)) =
                        (Suc r \<le> card (tape_positions n g - selected))"
      by linarith
    have "(sample_set_loop (Suc r) n [0..<n] selected g \<noteq> None) =
          (sample_set_loop r n [0..<n] (insert ?j selected) (sdrop (Suc ?m) g) \<noteq> None)"
      using rd
      by (cases "sample_set_loop r n [0..<n] (insert ?j selected) (sdrop (Suc ?m) g)")
        (auto simp del: sdrop.simps)
    then show ?thesis using Suc.IH[OF Suc.prems, of "insert ?j selected" "sdrop (Suc ?m) g"] c
      by simp
  qed
qed

lemma sample_positions_returns:
  "(sample_positions k n g \<noteq> None) =
     (k \<le> n \<and> (n \<le> sample_setsize k \<or> k \<le> card (tape_positions n g)))"
proof (cases "k \<le> n")
  case False
  then show ?thesis using sample_positions_error[of n k g] by simp
next
  case k: True
  show ?thesis
  proof (cases "n \<le> sample_setsize k")
    case True
    then show ?thesis using k sample_positions_pool[OF k True, of g] by simp
  next
    case False
    then have s: "sample_setsize k < n" by simp
    then have n: "0 < n" by simp
    have "(sample_positions k n g \<noteq> None) = (sample_set_loop k n [0..<n] {} g \<noteq> None)"
      unfolding sample_positions_set[OF k s] by simp
    then show ?thesis using sample_set_loop_returns[OF n, of k "{}" g] k False by simp
  qed
qed

section \<open>Properties of get_trivia_question\<close>

lemma emergency_pool_present:
  "tc difficulty = Some pool \<Longrightarrow> pool \<noteq> [] \<Longrightarrow> emergency_pool difficulty tc = (pool, tc)"
  by (simp add: emergency_pool_def cache_get_def)

lemma emergency_pool_nonempty: "fst (emergency_pool difficulty tc) \<noteq> []"
  by (auto simp: emergency_pool_def Let_def fallback_table_def FALLBACK_EASY_def
      FALLBACK_MEDIUM_def FALLBACK_HARD_def)

lemma shuffle_order_perm:
  "length (shuffle_order n g) = n \<and> mset (shuffle_order n g) = mset [0..<n]"
  using random_shuffle_perm[of "[0..<n]" g] by (simp add: shuffle_order_def)

lemma shuffle_order_distinct:
  "distinct (shuffle_order n g) \<and> set (shuffle_order n g) \<subseteq> {..<n}"
proof -
  have m: "mset (shuffle_order n g) = mset [0..<n]" using shuffle_order_perm by blast
  have "distinct (shuffle_order n g)" using mset_eq_imp_distinct_iff[OF m] by simp
  moreover have "set (shuffle_order n g) = set [0..<n]" using m by (rule mset_eq_setD)
  ultimately show ?thesis by auto
qed

text \<open>
  What the call selects from the pool it works on, before the formatting: the pool read
  at the positions \<open>ps\<close>.
\<close>

lemma selection:
  assumes "emergency_pool difficulty tc = (pool, tc1)" "0 \<le> cnt"
  shows "get_trivia_question difficulty cnt tc g = None \<and> cnt < int (length pool) \<and>
           sample_positions (nat cnt) (length pool) g = None \<or>
         (\<exists>ps g1.
            get_trivia_question difficulty cnt tc g =
              Some (Inr (fst (format_for_client (map ((!) pool) ps) g1)), tc1,
                    snd (format_for_client (map ((!) pool) ps) g1)) \<and>
            length ps = min (nat cnt) (length pool) \<and> distinct ps \<and>
            set ps \<subseteq> {..<length pool} \<and>
            (int (length pool) \<le> cnt \<longrightarrow> ps = shuffle_order (length pool) g) \<and>
            (cnt < int (length pool) \<longrightarrow>
               sample_positions (nat cnt) (length pool) g = Some ps))"
proof (cases "int (length pool) \<le> cnt")
  case True
  let ?ps = "shuffle_order (length pool) g"
  obtain sel g1 where sh0: "random_shuffle pool g = (sel, g1)" by (cases "random_shuffle pool g")
  then have "sel = map ((!) pool) ?ps" using random_shuffle_positions[of pool g] by simp
  then have sh: "random_shuffle pool g = (map ((!) pool) ?ps, g1)" using sh0 by simp
  have "get_trivia_question difficulty cnt tc g =
          Some (Inr (fst (format_for_client (map ((!) pool) ?ps) g1)), tc1,
                snd (format_for_client (map ((!) pool) ?ps) g1))"
    using assms(1) True sh by (simp add: get_trivia_question_def Let_def split: prod.splits)
  moreover have "length ?ps = min (nat cnt) (length pool)"
    using shuffle_order_perm[of "length pool" g] True by simp
  ultimately show ?thesis
    using True shuffle_order_distinct[of "length pool" g]
    by (intro disjI2 exI[of _ ?ps] exI[of _ g1]) simp
next
  case False
  then have k: "cnt \<le> int (length pool)" by simp
  from random_sample_positions[OF assms(2) k, of g] show ?thesis
  proof
    assume n: "random_sample pool cnt g = None \<and>
               sample_positions (nat cnt) (length pool) g = None"
    then have "get_trivia_question difficulty cnt tc g = None"
      using assms(1) False by (simp add: get_trivia_question_def)
    then show ?thesis using n False by simp
  next
    assume "\<exists>ps g1. random_sample pool cnt g = Some (Inr (map ((!) pool) ps), g1) \<and>
              sample_positions (nat cnt) (length pool) g = Some ps"
    then obtain ps g1 where
      rs: "random_sample pool cnt g = Some (Inr (map ((!) pool) ps), g1)"
      and sp: "sample_positions (nat cnt) (length pool) g = Some ps" by blast
    have "get_trivia_question difficulty cnt tc g =
            Some (Inr (fst (format_for_client (map ((!) pool) ps) g1)), tc1,
                  snd (format_for_client (map ((!) pool) ps) g1))"
      using assms(1) False rs by (simp add: get_trivia_question_def Let_def split: prod.splits)
    moreover have "length ps = min (nat cnt) (length pool)"
      using sample_positions_sound[OF sp] k by simp
    ultimately show ?thesis
      using False sp sample_positions_sound[OF sp]
      by (intro disjI2 exI[of _ ps] exI[of _ g1]) simp
  qed
qed

lemma returns:
  assumes "emergency_pool difficulty tc = (pool, tc1)" "0 \<le> cnt"
    "int (length pool) \<le> cnt \<or> length pool \<le> sample_setsize (nat cnt) \<or>
     fair_tape (length pool) g"
  shows "get_trivia_question difficulty cnt tc g \<noteq> None"
proof (cases "int (length pool) \<le> cnt")
  case True
  then show ?thesis using selection[OF assms(1,2), of g] by auto
next
  case False
  then have "nat cnt \<le> length pool" by simp
  moreover have "length pool \<le> sample_setsize (nat cnt) \<or> fair_tape (length pool) g"
    using assms(3) False by simp
  ultimately have "\<exists>ps. sample_positions (nat cnt) (length pool) g = Some ps"
    by (rule sample_positions_total)
  then show ?thesis using selection[OF assms(1,2), of g] by auto
qed

lemma returns_iff:
  assumes "emergency_pool difficulty tc = (pool, tc1)" "0 \<le> cnt"
  shows "(get_trivia_question difficulty cnt tc g \<noteq> None) =
           (int (length pool) \<le> cnt \<or> length pool \<le> sample_setsize (nat cnt) \<or>
            nat cnt \<le> card (tape_positions (length pool) g))"
proof (cases "int (length pool) \<le> cnt")
  case True
  then show ?thesis using returns[OF assms, of g] by simp
next
  case False
  then have k: "nat cnt \<le> length pool" by simp
  have "(get_trivia_question difficulty cnt tc g \<noteq> None) =
        (sample_positions (nat cnt) (length pool) g \<noteq> None)"
    using selection[OF assms, of g] False by auto
  then show ?thesis
    using sample_positions_returns[of "nat cnt" "length pool" g] k False by simp
qed

lemma call_result:
  assumes "emergency_pool difficulty tc = (pool, tc1)" "0 \<le> cnt"
  shows "get_trivia_question difficulty cnt tc g = None \<or>
         (\<exists>result g' ps.
            get_trivia_question difficulty cnt tc g = Some (Inr result, tc1, g') \<and>
            length result = min (nat cnt) (length pool) \<and>
            map view_question result = map (\<lambda>i. question (pool ! i)) ps \<and>
            map correct result = map (\<lambda>i. correct_answer (pool ! i)) ps \<and>
            length ps = min (nat cnt) (length pool) \<and> distinct ps \<and>
            set ps \<subseteq> {..<length pool} \<and>
            (int (length pool) \<le> cnt \<longrightarrow> ps = shuffle_order (length pool) g) \<and>
            (cnt < int (length pool) \<longrightarrow>
               sample_positions (nat cnt) (length pool) g = Some ps) \<and>
            mset (map ((!) pool) ps) \<subseteq># mset pool \<and>
            (int (length pool) \<le> cnt \<longrightarrow> mset (map ((!) pool) ps) = mset pool) \<and>
            (distinct (map question pool) \<longrightarrow> distinct (map view_question result)))"
proof (cases "get_trivia_question difficulty cnt tc g = None")
  case True
  then show ?thesis by simp
next
  case False
  from selection[OF assms, of g] False obtain ps g1 where s:
    "get_trivia_question difficulty cnt tc g =
       Some (Inr (fst (format_for_client (map ((!) pool) ps) g1)), tc1,
             snd (format_for_client (map ((!) pool) ps) g1))"
    "length ps = min (nat cnt) (length pool)" "distinct ps" "set ps \<subseteq> {..<length pool}"
    "int (length pool) \<le> cnt \<longrightarrow> ps = shuffle_order (length pool) g"
    "cnt < int (length pool) \<longrightarrow> sample_positions (nat cnt) (length pool) g = Some ps"
    by blast
  let ?selected = "map ((!) pool) ps"
  let ?result = "fst (format_for_client ?selected g1)"
  note f = format_for_client_questions[of ?selected g1]
  have sub: "mset ?selected \<subseteq># mset pool" using s(3,4) by (rule mset_at_positions)
  have all: "int (length pool) \<le> cnt \<longrightarrow> mset ?selected = mset pool"
  proof
    assume "int (length pool) \<le> cnt"
    then have "?selected = fst (random_shuffle pool g)"
      using s(5) random_shuffle_positions[of pool g] by simp
    then show "mset ?selected = mset pool" using random_shuffle_perm[of pool g] by simp
  qed
  have "mset (map question ?selected) \<subseteq># mset (map question pool)"
    using sub by (simp only: mset_map image_mset_subseteq_mono)
  then have "distinct (map question pool) \<Longrightarrow> distinct (map question ?selected)"
    by (rule distinct_sub_mset)
  then have d: "distinct (map question pool) \<longrightarrow> distinct (map view_question ?result)"
    using f by simp
  have q: "map view_question ?result = map (\<lambda>i. question (pool ! i)) ps"
    "map correct ?result = map (\<lambda>i. correct_answer (pool ! i)) ps"
    "length ?result = min (nat cnt) (length pool)"
    using f s(2) by (simp_all add: comp_def)
  show ?thesis
    using s q sub all d
    by (intro disjI2 exI[of _ ?result] exI[of _ "snd (format_for_client ?selected g1)"]
        exI[of _ ps]) simp
qed

text \<open>
  Claim C1, amended. For a tier with a non-empty pool and a count that is not negative,
  the call raises nothing and, when it returns, returns \<open>min(count, pool size)\<close>
  questions: the pool read at that many different positions \<open>ps\<close>, so no entry is taken
  more often than the pool holds it, and the questions returned are pairwise distinct
  when those of the pool are. The cache is left as it is. The call returns on every
  tape when the count reaches the pool size or the pool is no larger than
  \<^verbatim>\<open>setsize\<close>, and otherwise exactly on the tapes that draw at least \<open>count\<close>
  different positions, so on every tape on which each position recurs.

  The order and the sample are random, and uniform, in this sense.

  \<^item> With the count at the pool size or above, \<open>ps\<close> is the order left by the shuffle,
    a permutation of the positions. The orders of \<open>m\<close> positions correspond one to one
    to the sequences of the shuffle's draws (the \<open>i\<close>-th below \<open>m - i\<close>): equal draws
    give equal orders, equal orders come from equal draws, and every permutation comes
    from some draws.

  \<^item> With a smaller count \<open>k\<close>, \<open>ps\<close> are the positions that \<^verbatim>\<open>sample\<close> picks: \<open>k\<close>
    different positions, and every list of \<open>k\<close> different positions is picked on some
    tape. In the loop for \<open>n \<le> setsize\<close> the picks correspond one to one to the
    sequences of draws, as for the shuffle. In the redrawing loop, renaming the draws by
    a permutation of the positions renames the picks by that permutation.

  So when the draws are independent and each value of a draw is as likely as any other,
  every order of the pool is as likely as any other, and so is every ordered selection of
  \<open>k\<close> different positions.
\<close>

theorem sample_without_replacement:
  assumes "tc difficulty = Some pool" "pool \<noteq> []" "0 \<le> cnt"
  shows "(get_trivia_question difficulty cnt tc g = None \<or>
          (\<exists>result g' ps.
             get_trivia_question difficulty cnt tc g = Some (Inr result, tc, g') \<and>
             length result = min (nat cnt) (length pool) \<and>
             map view_question result = map (\<lambda>i. question (pool ! i)) ps \<and>
             map correct result = map (\<lambda>i. correct_answer (pool ! i)) ps \<and>
             length ps = min (nat cnt) (length pool) \<and> distinct ps \<and>
             set ps \<subseteq> {..<length pool} \<and>
             (int (length pool) \<le> cnt \<longrightarrow> ps = shuffle_order (length pool) g) \<and>
             (cnt < int (length pool) \<longrightarrow>
                sample_positions (nat cnt) (length pool) g = Some ps) \<and>
             mset (map ((!) pool) ps) \<subseteq># mset pool \<and>
             (int (length pool) \<le> cnt \<longrightarrow> mset (map ((!) pool) ps) = mset pool) \<and>
             (distinct (map question pool) \<longrightarrow> distinct (map view_question result)))) \<and>
         (get_trivia_question difficulty cnt tc g \<noteq> None) =
           (int (length pool) \<le> cnt \<or> length pool \<le> sample_setsize (nat cnt) \<or>
            nat cnt \<le> card (tape_positions (length pool) g)) \<and>
         (fair_tape (length pool) g \<longrightarrow>
            get_trivia_question difficulty cnt tc g \<noteq> None) \<and>
         mset (shuffle_order m g) = mset [0..<m] \<and>
         (shuffle_order m ga = shuffle_order m gb \<longleftrightarrow>
            sample_draws (m - 1) m ga = sample_draws (m - 1) m gb) \<and>
         (mset qs = mset [0..<m] \<longrightarrow> (\<exists>g0. shuffle_order m g0 = qs)) \<and>
         (sample_positions k n g = Some qs \<longrightarrow>
            k \<le> n \<and> length qs = k \<and> distinct qs \<and> set qs \<subseteq> {..<n}) \<and>
         (length qs = k \<and> distinct qs \<and> set qs \<subseteq> {..<n} \<longrightarrow>
            (\<exists>g0. sample_positions k n g0 = Some qs)) \<and>
         (sample_positions k n g \<noteq> None) =
           (k \<le> n \<and> (n \<le> sample_setsize k \<or> k \<le> card (tape_positions n g))) \<and>
         (k \<le> n \<and> fair_tape n g \<longrightarrow> sample_positions k n g \<noteq> None) \<and>
         (k \<le> n \<and> n \<le> sample_setsize k \<longrightarrow>
            (sample_positions k n ga = sample_positions k n gb \<longleftrightarrow>
               sample_draws k n ga = sample_draws k n gb)) \<and>
         (k \<le> n \<and> sample_setsize k < n \<and> bij_betw p {..<n} {..<n} \<longrightarrow>
            sample_positions k n (relabel p n g) = map_option (map p) (sample_positions k n g))"
proof -
  have ep: "emergency_pool difficulty tc = (pool, tc)"
    using emergency_pool_present[of tc difficulty pool] assms(1,2) by simp
  note c1 = call_result[OF ep assms(3), of g]
  note c2 = returns_iff[OF ep assms(3), of g]
  have c3: "fair_tape (length pool) g \<longrightarrow> get_trivia_question difficulty cnt tc g \<noteq> None"
    using returns[OF ep assms(3), of g] by blast
  have s1: "mset (shuffle_order m g) = mset [0..<m]"
    using shuffle_order_perm by blast
  have s2: "shuffle_order m ga = shuffle_order m gb \<longleftrightarrow>
            sample_draws (m - 1) m ga = sample_draws (m - 1) m gb"
    using shuffle_order_inj[of m ga gb] shuffle_order_by_draws[of m ga gb] by blast
  have s3: "mset qs = mset [0..<m] \<longrightarrow> (\<exists>g0. shuffle_order m g0 = qs)"
    by (intro impI) (rule shuffle_order_surj)
  have p1: "sample_positions k n g = Some qs \<longrightarrow>
            k \<le> n \<and> length qs = k \<and> distinct qs \<and> set qs \<subseteq> {..<n}"
    by (intro impI) (rule sample_positions_sound)
  have p2: "length qs = k \<and> distinct qs \<and> set qs \<subseteq> {..<n} \<longrightarrow>
            (\<exists>g0. sample_positions k n g0 = Some qs)"
    using sample_positions_reach[of qs k n] by blast
  note p3 = sample_positions_returns[of k n g]
  have p3f: "k \<le> n \<and> fair_tape n g \<longrightarrow> sample_positions k n g \<noteq> None"
    using sample_positions_total[of k n g] by auto
  have p4: "k \<le> n \<and> n \<le> sample_setsize k \<longrightarrow>
            (sample_positions k n ga = sample_positions k n gb \<longleftrightarrow>
               sample_draws k n ga = sample_draws k n gb)"
    using sample_positions_by_draws[of k n ga gb] by blast
  have p5: "k \<le> n \<and> sample_setsize k < n \<and> bij_betw p {..<n} {..<n} \<longrightarrow>
            sample_positions k n (relabel p n g) = map_option (map p) (sample_positions k n g)"
    using sample_positions_relabel[of k n p g] by blast
  show ?thesis
    by (rule conjI[OF c1 conjI[OF c2 conjI[OF c3 conjI[OF s1 conjI[OF s2 conjI[OF s3
          conjI[OF p1 conjI[OF p2 conjI[OF p3 conjI[OF p3f conjI[OF p4 p5]]]]]]]]]]])
qed

lemma emergency_pool_cases:
  "cache_get tc difficulty \<noteq> [] \<longrightarrow> emergency_pool difficulty tc = (cache_get tc difficulty, tc)"
  "cache_get tc difficulty = [] \<and> difficulty = ''easy'' \<longrightarrow>
     emergency_pool difficulty tc = (FALLBACK_EASY, tc(difficulty \<mapsto> FALLBACK_EASY))"
  "cache_get tc difficulty = [] \<and> difficulty = ''medium'' \<longrightarrow>
     emergency_pool difficulty tc = (FALLBACK_MEDIUM, tc(difficulty \<mapsto> FALLBACK_MEDIUM))"
  "cache_get tc difficulty = [] \<and> difficulty = ''hard'' \<longrightarrow>
     emergency_pool difficulty tc = (FALLBACK_HARD, tc(difficulty \<mapsto> FALLBACK_HARD))"
  "cache_get tc difficulty = [] \<and> difficulty \<notin> {''easy'', ''medium'', ''hard''} \<longrightarrow>
     emergency_pool difficulty tc = (FALLBACK_EASY, tc(difficulty \<mapsto> FALLBACK_EASY))"
  by (auto simp: emergency_pool_def fallback_table_def Let_def)

text \<open>
  Claim C9. For every difficulty and every count that is not negative the call does not
  fail: it raises on no tape, and it returns questions, at least one when the count is
  at least 1, on every tape on which each position of the pool recurs. It returns on
  every tape at all when the count reaches the pool size or the pool is no larger than
  \<^verbatim>\<open>setsize\<close>, where nothing is drawn again, and otherwise exactly on the tapes that
  draw at least \<open>count\<close> different positions. The pool it draws from is never empty: an
  empty or absent pool is replaced, before the sampling, by the bank of the tier, the
  easy bank for a difficulty that is none of the three tiers, and the replacement is
  stored in the cache.
\<close>

theorem sample_never_fails:
  assumes "0 \<le> cnt"
  shows "(get_trivia_question difficulty cnt tc g = None \<or>
          (\<exists>result g' selected.
             get_trivia_question difficulty cnt tc g =
               Some (Inr result, snd (emergency_pool difficulty tc), g') \<and>
             length result = min (nat cnt) (length (fst (emergency_pool difficulty tc))) \<and>
             (1 \<le> cnt \<longrightarrow> result \<noteq> []) \<and>
             map view_question result = map question selected \<and>
             mset selected \<subseteq># mset (fst (emergency_pool difficulty tc)))) \<and>
         (get_trivia_question difficulty cnt tc g \<noteq> None) =
           (int (length (fst (emergency_pool difficulty tc))) \<le> cnt \<or>
            length (fst (emergency_pool difficulty tc)) \<le> sample_setsize (nat cnt) \<or>
            nat cnt \<le> card (tape_positions (length (fst (emergency_pool difficulty tc))) g)) \<and>
         (fair_tape (length (fst (emergency_pool difficulty tc))) g \<longrightarrow>
            get_trivia_question difficulty cnt tc g \<noteq> None) \<and>
         fst (emergency_pool difficulty tc) \<noteq> [] \<and>
         (cache_get tc difficulty \<noteq> [] \<longrightarrow>
            emergency_pool difficulty tc = (cache_get tc difficulty, tc)) \<and>
         (cache_get tc difficulty = [] \<and> difficulty = ''easy'' \<longrightarrow>
            emergency_pool difficulty tc = (FALLBACK_EASY, tc(difficulty \<mapsto> FALLBACK_EASY))) \<and>
         (cache_get tc difficulty = [] \<and> difficulty = ''medium'' \<longrightarrow>
            emergency_pool difficulty tc = (FALLBACK_MEDIUM, tc(difficulty \<mapsto> FALLBACK_MEDIUM))) \<and>
         (cache_get tc difficulty = [] \<and> difficulty = ''hard'' \<longrightarrow>
            emergency_pool difficulty tc = (FALLBACK_HARD, tc(difficulty \<mapsto> FALLBACK_HARD))) \<and>
         (cache_get tc difficulty = [] \<and> difficulty \<notin> {''easy'', ''medium'', ''hard''} \<longrightarrow>
            emergency_pool difficulty tc = (FALLBACK_EASY, tc(difficulty \<mapsto> FALLBACK_EASY))) \<and>
         length FALLBACK_EASY = 40 \<and> length FALLBACK_MEDIUM = 20 \<and> length FALLBACK_HARD = 15"
proof -
  obtain pool tc1 where ep: "emergency_pool difficulty tc = (pool, tc1)"
    by (cases "emergency_pool difficulty tc")
  have ne: "pool \<noteq> []" using emergency_pool_nonempty[of difficulty tc] ep by simp
  have ok: "get_trivia_question difficulty cnt tc g = None \<or>
          (\<exists>result g' selected.
             get_trivia_question difficulty cnt tc g = Some (Inr result, tc1, g') \<and>
             length result = min (nat cnt) (length pool) \<and>
             (1 \<le> cnt \<longrightarrow> result \<noteq> []) \<and>
             map view_question result = map question selected \<and>
             mset selected \<subseteq># mset pool)"
  proof (cases "get_trivia_question difficulty cnt tc g = None")
    case True
    then show ?thesis by simp
  next
    case False
    from call_result[OF ep assms, of g] False obtain result g' ps where s:
      "get_trivia_question difficulty cnt tc g = Some (Inr result, tc1, g')"
      "length result = min (nat cnt) (length pool)"
      "map view_question result = map (\<lambda>i. question (pool ! i)) ps"
      "mset (map ((!) pool) ps) \<subseteq># mset pool"
      by blast
    have "1 \<le> cnt \<longrightarrow> result \<noteq> []"
    proof
      assume "1 \<le> cnt"
      then have "0 < nat cnt" "0 < length pool" using ne by simp_all
      then have "0 < min (nat cnt) (length pool)" by simp
      then have "0 < length result" using s(2) by simp
      then show "result \<noteq> []" by blast
    qed
    moreover have "map view_question result = map question (map ((!) pool) ps)"
      using s(3) by (simp add: comp_def)
    ultimately show ?thesis
      using s(1,2,4)
      by (intro disjI2 exI[of _ result] exI[of _ g'] exI[of _ "map ((!) pool) ps"]) simp
  qed
  note ret = returns_iff[OF ep assms, of g]
  have retf: "fair_tape (length pool) g \<longrightarrow> get_trivia_question difficulty cnt tc g \<noteq> None"
    using returns[OF ep assms, of g] by blast
  have cs: "(cache_get tc difficulty \<noteq> [] \<longrightarrow>
            emergency_pool difficulty tc = (cache_get tc difficulty, tc)) \<and>
         (cache_get tc difficulty = [] \<and> difficulty = ''easy'' \<longrightarrow>
            emergency_pool difficulty tc = (FALLBACK_EASY, tc(difficulty \<mapsto> FALLBACK_EASY))) \<and>
         (cache_get tc difficulty = [] \<and> difficulty = ''medium'' \<longrightarrow>
            emergency_pool difficulty tc = (FALLBACK_MEDIUM, tc(difficulty \<mapsto> FALLBACK_MEDIUM))) \<and>
         (cache_get tc difficulty = [] \<and> difficulty = ''hard'' \<longrightarrow>
            emergency_pool difficulty tc = (FALLBACK_HARD, tc(difficulty \<mapsto> FALLBACK_HARD))) \<and>
         (cache_get tc difficulty = [] \<and> difficulty \<notin> {''easy'', ''medium'', ''hard''} \<longrightarrow>
            emergency_pool difficulty tc = (FALLBACK_EASY, tc(difficulty \<mapsto> FALLBACK_EASY))) \<and>
         length FALLBACK_EASY = 40 \<and> length FALLBACK_MEDIUM = 20 \<and> length FALLBACK_HARD = 15"
    by (intro conjI emergency_pool_cases length_banks)
  show ?thesis
    unfolding ep fst_conv snd_conv
    by (rule conjI[OF ok conjI[OF ret conjI[OF retf conjI[OF ne cs[unfolded ep]]]]])
qed

subsection \<open>Concrete calls\<close>

lemma sample_loop_numeral:
  "sample_loop (numeral k) m pool g =
     (let (j, g1) = randbelow m g;
          (rest, g2) = sample_loop (pred_numeral k) (m - 1) (pool[j := pool ! (m - 1)]) g1
      in (pool ! j # rest, g2))"
  by (simp add: numeral_eq_Suc)

lemma sample_set_loop_numeral:
  "sample_set_loop (numeral k) n population selected g =
     (case redraw n selected g of
        None \<Rightarrow> None
      | Some (j, g1) \<Rightarrow>
          (case sample_set_loop (pred_numeral k) n population (insert j selected) g1 of
             None \<Rightarrow> None
           | Some (rest, g2) \<Rightarrow> Some (population ! j # rest, g2)))"
  by (simp add: numeral_eq_Suc)

lemma redraw_SCons:
  "redraw n selected (x ## g) =
     (if x mod n \<in> selected then redraw n selected g else Some (x mod n, g))"
  by (subst redraw_step) simp

lemma shuffle_loop_numeral:
  "shuffle_loop (numeral k) x g =
     (let (j, g1) = randbelow (numeral k + 1) g
      in shuffle_loop (pred_numeral k) (swap_at x (numeral k) j) g1)"
  by (simp add: numeral_eq_Suc)

lemma mod_two_Suc: "n mod Suc (Suc 0) = n mod 2"
  by (simp add: numeral_2_eq_2)

lemma list_update_numeral:
  "(x # xs)[numeral k := y] = x # xs[pred_numeral k := y]"
  by (simp add: numeral_eq_Suc)

lemma sample_setsize_small: "sample_setsize 2 = 21" "sample_setsize 6 = 85"
  by (simp_all add: sample_setsize_def pow4_ceil.simps)

lemmas trivia_eval =
  get_trivia_question_def emergency_pool_def cache_get_def fallback_table_def
  random_sample_def random_shuffle_def randbelow_def swap_at_def Let_def
  sample_loop_numeral shuffle_loop_numeral mod_two_Suc list_update_numeral mk_q_def
  sample_set_loop_numeral redraw_SCons sample_setsize_small

lemma sample_draws_numeral:
  "sample_draws (numeral k) m g = (shd g mod m) # sample_draws (pred_numeral k) (m - 1) (stl g)"
  using sample_draws_Suc[of "pred_numeral k" m g] by (simp add: numeral_eq_Suc)

lemma sample_draws_0: "sample_draws 0 m g = []"
  by (simp add: sample_draws_def)

lemma counting_tape_snth: "counting_tape !! i = i"
proof -
  have "((\<lambda>x. x + 1) ^^ i) (0 :: nat) = i" by (induction i) simp_all
  then show ?thesis by (simp add: counting_tape_def)
qed

lemma fair_counting_tape: "fair_tape n counting_tape"
  unfolding fair_tape_def
proof (intro allI impI)
  fix v k assume v: "v < n"
  have "k \<le> k * n + v" using v by (cases n) simp_all
  moreover have "(k * n + v) mod n = v" using v by simp
  ultimately show "\<exists>i\<ge>k. counting_tape !! i mod n = v"
    unfolding counting_tape_snth by blast
qed

lemma fair_tape_shift: "fair_tape n g \<Longrightarrow> fair_tape n (xs @- g)"
  unfolding fair_tape_def
proof (intro allI impI)
  fix v k assume f: "\<forall>v<n. \<forall>k. \<exists>i\<ge>k. g !! i mod n = v" and v: "v < n"
  then obtain i where i: "k \<le> i" "g !! i mod n = v" by blast
  then have "k \<le> length xs + i" "(xs @- g) !! (length xs + i) mod n = v"
    by (simp_all add: shift_snth_ge)
  then show "\<exists>i\<ge>k. (xs @- g) !! i mod n = v" by blast
qed

lemma fair_trivia_tape: "fair_tape n trivia_tape"
  unfolding trivia_tape_def using fair_counting_tape by (rule fair_tape_shift)

lemma draws_examples:
  "sample_draws 2 5 trivia_tape = [3, 3]"
  "sample_draws 2 5 ([8, 7] @- sconst 7) = [3, 3]"
  "sample_draws 2 3 trivia_tape = [0, 1]"
  "sample_draws 2 3 ([6, 5] @- sconst 4) = [0, 1]"
  by (simp_all add: sample_draws_numeral sample_draws_Suc sample_draws_0 trivia_tape_def)

lemma positions_examples:
  "sample_positions 2 5 trivia_tape = Some [3, 4]"
  "sample_positions 2 5 ([8, 7] @- sconst 7) = Some [3, 4]"
  "sample_positions 2 40 trivia_tape = Some [3, 5]"
  "sample_positions 2 40 (relabel (\<lambda>x. 39 - x) 40 trivia_tape) = Some [36, 34]"
  by (simp_all add: sample_positions_def trivia_eval relabel_def trivia_tape_def upt_conv_Cons)

lemma order_examples:
  "shuffle_order 3 trivia_tape = [2, 1, 0]"
  "shuffle_order 3 ([6, 5] @- sconst 4) = [2, 1, 0]"
  "shuffle_order 5 trivia_tape = [0, 1, 2, 4, 3]"
  by (simp_all add: shuffle_order_def trivia_eval trivia_tape_def upt_conv_Cons)

lemma easy_sample:
  "get_trivia_question ''easy'' 2 [''easy'' \<mapsto> FALLBACK_EASY] trivia_tape =
     Some (Inr [\<lparr>view_question = ''What gas do plants absorb from the atmosphere?'',
                 answers = [''Carbon Dioxide'', ''Oxygen'', ''Helium'', ''Nitrogen''],
                 correct = ''Carbon Dioxide'', view_category = ''General''\<rparr>,
                \<lparr>view_question = ''What is the chemical symbol for water?'',
                 answers = [''CO2'', ''NaCl'', ''H2O'', ''O2''],
                 correct = ''H2O'', view_category = ''General''\<rparr>],
           [''easy'' \<mapsto> FALLBACK_EASY], counting_tape)"
  by (simp add: trivia_eval trivia_tape_def FALLBACK_EASY_def)

lemma banana_sample:
  "get_trivia_question ''banana'' 2 Map.empty trivia_tape =
     Some (Inr [\<lparr>view_question = ''What gas do plants absorb from the atmosphere?'',
                 answers = [''Carbon Dioxide'', ''Oxygen'', ''Helium'', ''Nitrogen''],
                 correct = ''Carbon Dioxide'', view_category = ''General''\<rparr>,
                \<lparr>view_question = ''What is the chemical symbol for water?'',
                 answers = [''CO2'', ''NaCl'', ''H2O'', ''O2''],
                 correct = ''H2O'', view_category = ''General''\<rparr>],
           [''banana'' \<mapsto> FALLBACK_EASY], counting_tape)"
  by (simp add: trivia_eval trivia_tape_def FALLBACK_EASY_def)

lemma distinct_easy: "distinct (map question FALLBACK_EASY)"
  by (simp add: FALLBACK_EASY_def mk_q_def)

lemma twin_sample:
  "get_trivia_question ''hard'' 2 [''hard'' \<mapsto> twin_pool] (sconst 0) =
     Some (Inr [\<lparr>view_question = ''What is the half-life of Carbon-14 (in years)?'',
                 answers = [''8,400'', ''11,460'', ''5,730'', ''3,200''],
                 correct = ''5,730'', view_category = ''General''\<rparr>,
                \<lparr>view_question = ''What is the half-life of Carbon-14 (in years)?'',
                 answers = [''8,400'', ''11,460'', ''5,730'', ''3,200''],
                 correct = ''5,730'', view_category = ''General''\<rparr>],
           [''hard'' \<mapsto> twin_pool], sconst 0)"
  by (simp add: trivia_eval twin_pool_def FALLBACK_HARD_def)

lemma part_sample:
  "map_option (map view_question \<circ> projr \<circ> fst)
     (get_trivia_question ''hard'' 2 [''hard'' \<mapsto> scenario_pool] trivia_tape) =
   Some (map question [scenario_pool ! 3, scenario_pool ! 4])"
  by (simp add: trivia_eval scenario_pool_def trivia_tape_def FALLBACK_HARD_def)

lemma whole_sample:
  "map_option (map view_question \<circ> projr \<circ> fst)
     (get_trivia_question ''hard'' 7 [''hard'' \<mapsto> scenario_pool] trivia_tape) =
   Some (map question [scenario_pool ! 0, scenario_pool ! 1, scenario_pool ! 2,
     scenario_pool ! 4, scenario_pool ! 3])"
  by (simp add: trivia_eval scenario_pool_def trivia_tape_def FALLBACK_HARD_def)

lemma negative_sample:
  "get_trivia_question ''easy'' (- 1) [''easy'' \<mapsto> FALLBACK_EASY] trivia_tape =
     Some (Inl ValueError, [''easy'' \<mapsto> FALLBACK_EASY], trivia_tape)"
  by (simp add: get_trivia_question_def emergency_pool_def cache_get_def random_sample_def
      Let_def FALLBACK_EASY_def)

lemma mirror_bij: "bij_betw (\<lambda>x. 39 - x) {..<40 :: nat} {..<40}"
  by (rule bij_betw_byWitness[where f' = "\<lambda>x. 39 - x"]) auto

text \<open>
  The claim as stated covers every count and promises questions without duplicates. A
  count of -1, which the handler passes on from the query string, makes
  \<^verbatim>\<open>random.sample\<close> raise; and a pool that holds one question twice gives that
  question twice.
\<close>

theorem sample_negative_count_or_twins:
  "[''easy'' \<mapsto> FALLBACK_EASY] ''easy'' = Some FALLBACK_EASY \<and> FALLBACK_EASY \<noteq> [] \<and>
   get_trivia_question ''easy'' (- 1) [''easy'' \<mapsto> FALLBACK_EASY] trivia_tape =
     Some (Inl ValueError, [''easy'' \<mapsto> FALLBACK_EASY], trivia_tape) \<and>
   [''hard'' \<mapsto> twin_pool] ''hard'' = Some twin_pool \<and> twin_pool \<noteq> [] \<and>
   get_trivia_question ''hard'' 2 [''hard'' \<mapsto> twin_pool] (sconst 0) =
     Some (Inr [\<lparr>view_question = ''What is the half-life of Carbon-14 (in years)?'',
                 answers = [''8,400'', ''11,460'', ''5,730'', ''3,200''],
                 correct = ''5,730'', view_category = ''General''\<rparr>,
                \<lparr>view_question = ''What is the half-life of Carbon-14 (in years)?'',
                 answers = [''8,400'', ''11,460'', ''5,730'', ''3,200''],
                 correct = ''5,730'', view_category = ''General''\<rparr>],
           [''hard'' \<mapsto> twin_pool], sconst 0)"
proof -
  have a: "[''easy'' \<mapsto> FALLBACK_EASY] ''easy'' = Some FALLBACK_EASY"
    "[''hard'' \<mapsto> twin_pool] ''hard'' = Some twin_pool"
    by simp_all
  have b: "FALLBACK_EASY \<noteq> []" "twin_pool \<noteq> []"
    by (simp_all add: FALLBACK_EASY_def twin_pool_def)
  show ?thesis by (intro conjI a b negative_sample twin_sample)
qed

theorem sample_without_replacement_witness:
  "[''easy'' \<mapsto> FALLBACK_EASY] ''easy'' = Some FALLBACK_EASY \<and> FALLBACK_EASY \<noteq> [] \<and>
   distinct (map question FALLBACK_EASY) \<and> fair_tape (length FALLBACK_EASY) trivia_tape \<and>
   get_trivia_question ''easy'' 2 [''easy'' \<mapsto> FALLBACK_EASY] trivia_tape =
     Some (Inr [\<lparr>view_question = ''What gas do plants absorb from the atmosphere?'',
                 answers = [''Carbon Dioxide'', ''Oxygen'', ''Helium'', ''Nitrogen''],
                 correct = ''Carbon Dioxide'', view_category = ''General''\<rparr>,
                \<lparr>view_question = ''What is the chemical symbol for water?'',
                 answers = [''CO2'', ''NaCl'', ''H2O'', ''O2''],
                 correct = ''H2O'', view_category = ''General''\<rparr>],
           [''easy'' \<mapsto> FALLBACK_EASY], counting_tape) \<and>
   get_trivia_question ''easy'' 2 [''easy'' \<mapsto> FALLBACK_EASY] trivia_tape \<noteq> None \<and>
   (\<exists>result g' ps.
      get_trivia_question ''easy'' 2 [''easy'' \<mapsto> FALLBACK_EASY] trivia_tape =
        Some (Inr result, [''easy'' \<mapsto> FALLBACK_EASY], g') \<and>
      length result = 2 \<and>
      map view_question result = map (\<lambda>i. question (FALLBACK_EASY ! i)) ps \<and>
      map correct result = map (\<lambda>i. correct_answer (FALLBACK_EASY ! i)) ps \<and>
      length ps = 2 \<and> distinct ps \<and> set ps \<subseteq> {..<40} \<and>
      ps = [3, 5] \<and>
      mset (map ((!) FALLBACK_EASY) ps) \<subseteq># mset FALLBACK_EASY \<and>
      distinct (map view_question result)) \<and>
   [''hard'' \<mapsto> scenario_pool] ''hard'' = Some scenario_pool \<and> scenario_pool \<noteq> [] \<and>
   int (length scenario_pool) \<le> 7 \<and> length scenario_pool \<le> sample_setsize (nat 2) \<and>
   get_trivia_question ''hard'' 2 [''hard'' \<mapsto> scenario_pool] trivia_tape \<noteq> None \<and>
   get_trivia_question ''hard'' 7 [''hard'' \<mapsto> scenario_pool] trivia_tape \<noteq> None \<and>
   (\<exists>result g' ps.
      get_trivia_question ''hard'' 7 [''hard'' \<mapsto> scenario_pool] trivia_tape =
        Some (Inr result, [''hard'' \<mapsto> scenario_pool], g') \<and>
      length result = 5 \<and>
      map view_question result = map (\<lambda>i. question (scenario_pool ! i)) ps \<and>
      map correct result = map (\<lambda>i. correct_answer (scenario_pool ! i)) ps \<and>
      length ps = 5 \<and> distinct ps \<and> set ps \<subseteq> {..<5} \<and>
      ps = [0, 1, 2, 4, 3] \<and>
      mset (map ((!) scenario_pool) ps) \<subseteq># mset scenario_pool \<and>
      mset (map ((!) scenario_pool) ps) = mset scenario_pool) \<and>
   map_option (map view_question \<circ> projr \<circ> fst)
     (get_trivia_question ''hard'' 7 [''hard'' \<mapsto> scenario_pool] trivia_tape) =
   Some (map question [scenario_pool ! 0, scenario_pool ! 1, scenario_pool ! 2,
     scenario_pool ! 4, scenario_pool ! 3]) \<and>
   map_option (map view_question \<circ> projr \<circ> fst)
     (get_trivia_question ''hard'' 2 [''hard'' \<mapsto> scenario_pool] trivia_tape) =
   Some (map question [scenario_pool ! 3, scenario_pool ! 4]) \<and>
   mset (shuffle_order 3 trivia_tape) = mset [0..<3] \<and>
   shuffle_order 3 trivia_tape = [2, 1, 0] \<and>
   sample_draws 2 3 trivia_tape = sample_draws 2 3 ([6, 5] @- sconst 4) \<and>
   shuffle_order 3 trivia_tape = shuffle_order 3 ([6, 5] @- sconst 4) \<and>
   mset [1, 2, 0] = mset [0..<3] \<and> (\<exists>g0. shuffle_order 3 g0 = [1, 2, 0]) \<and>
   sample_positions 2 5 trivia_tape = Some [3, 4] \<and>
   (2 :: nat) \<le> 5 \<and> length [3, 4 :: nat] = 2 \<and> distinct [3, 4 :: nat] \<and>
   set [3, 4 :: nat] \<subseteq> {..<5} \<and>
   (5 :: nat) \<le> sample_setsize 2 \<and> sample_positions 2 5 trivia_tape \<noteq> None \<and>
   sample_draws 2 5 trivia_tape = sample_draws 2 5 ([8, 7] @- sconst 7) \<and>
   sample_positions 2 5 trivia_tape = sample_positions 2 5 ([8, 7] @- sconst 7) \<and>
   length [39, 0 :: nat] = 2 \<and> distinct [39, 0 :: nat] \<and> set [39, 0 :: nat] \<subseteq> {..<40} \<and>
   (\<exists>g0. sample_positions 2 40 g0 = Some [39, 0]) \<and>
   (2 :: nat) \<le> 40 \<and> sample_setsize 2 < 40 \<and> fair_tape 40 trivia_tape \<and>
   sample_positions 2 40 trivia_tape \<noteq> None \<and>
   sample_positions 2 40 trivia_tape = Some [3, 5] \<and>
   bij_betw (\<lambda>x. 39 - x) {..<40 :: nat} {..<40} \<and>
   sample_positions 2 40 (relabel (\<lambda>x. 39 - x) 40 trivia_tape) =
     map_option (map (\<lambda>x. 39 - x)) (sample_positions 2 40 trivia_tape) \<and>
   sample_positions 2 40 (relabel (\<lambda>x. 39 - x) 40 trivia_tape) = Some [36, 34] \<and>
   tape_positions (length FALLBACK_EASY) trivia_tape = {..<40} \<and>
   tape_positions 40 (sconst 0) = {0} \<and>
   sample_positions 2 40 (sconst 0) = None \<and>
   get_trivia_question ''easy'' 2 [''easy'' \<mapsto> FALLBACK_EASY] (sconst 0) = None"
proof -
  have e: "[''easy'' \<mapsto> FALLBACK_EASY] ''easy'' = Some FALLBACK_EASY" "FALLBACK_EASY \<noteq> []"
    "length FALLBACK_EASY = 40"
    by (simp_all add: FALLBACK_EASY_def)
  have h: "[''hard'' \<mapsto> scenario_pool] ''hard'' = Some scenario_pool" "scenario_pool \<noteq> []"
    "length scenario_pool = 5"
    by (simp_all add: scenario_pool_def FALLBACK_HARD_def)
  have n: "(0 :: int) \<le> 2" "(0 :: int) \<le> 7" "(2 :: nat) \<le> 5" "(2 :: nat) \<le> 40"
    "(5 :: nat) \<le> sample_setsize 2" "sample_setsize 2 < 40"
    by (simp_all add: sample_setsize_small)
  have l: "int (length scenario_pool) \<le> 7" "length scenario_pool \<le> sample_setsize (nat 2)"
    using h(3) by (simp_all add: sample_setsize_small)
  have f: "fair_tape (length FALLBACK_EASY) trivia_tape" "fair_tape 40 trivia_tape"
    by (rule fair_trivia_tape)+
  have q: "length [3, 4 :: nat] = 2" "distinct [3, 4 :: nat]" "set [3, 4 :: nat] \<subseteq> {..<5}"
    "length [39, 0 :: nat] = 2" "distinct [39, 0 :: nat]" "set [39, 0 :: nat] \<subseteq> {..<40}"
    by simp_all
  have m: "mset [1, 2, 0] = mset [0..<3]" by (simp add: upt_conv_Cons)
  note T1 = sample_without_replacement[where tc = "[''easy'' \<mapsto> FALLBACK_EASY]"
      and difficulty = "''easy''" and pool = FALLBACK_EASY and cnt = 2 and g = trivia_tape
      and m = 3 and ga = trivia_tape and gb = "[6, 5] @- sconst 4" and qs = "[1, 2, 0]"
      and k = 2 and n = 40 and p = "\<lambda>x. 39 - x", OF e(1) e(2) n(1)]
  note T2 = sample_without_replacement[where tc = "[''hard'' \<mapsto> scenario_pool]"
      and difficulty = "''hard''" and pool = scenario_pool and cnt = 7 and g = trivia_tape
      and m = 3 and ga = trivia_tape and gb = "[8, 7] @- sconst 7" and qs = "[3, 4]"
      and k = 2 and n = 5 and p = "\<lambda>x. x", OF h(1) h(2) n(2)]
  note T3 = sample_without_replacement[where tc = "[''hard'' \<mapsto> scenario_pool]"
      and difficulty = "''hard''" and pool = scenario_pool and cnt = 2 and g = trivia_tape
      and m = 3 and ga = trivia_tape and gb = "[8, 7] @- sconst 7" and qs = "[39, 0]"
      and k = 2 and n = 40 and p = "\<lambda>x. x", OF h(1) h(2) n(1)]
  note T4 = sample_without_replacement[where tc = "[''easy'' \<mapsto> FALLBACK_EASY]"
      and difficulty = "''easy''" and pool = FALLBACK_EASY and cnt = 2 and g = "sconst 0"
      and m = 3 and ga = trivia_tape and gb = "[6, 5] @- sconst 4" and qs = "[1, 2, 0]"
      and k = 2 and n = 40 and p = "\<lambda>x. 39 - x", OF e(1) e(2) n(1)]
  note a1 = T1[THEN conjunct1]
  note a2 = T1[THEN conjunct2, THEN conjunct1]
  note a3 = T1[THEN conjunct2, THEN conjunct2, THEN conjunct1]
  note a4 = T1[THEN conjunct2, THEN conjunct2, THEN conjunct2, THEN conjunct1]
  note a5 = T1[THEN conjunct2, THEN conjunct2, THEN conjunct2, THEN conjunct2, THEN conjunct1]
  note a6 = T1[THEN conjunct2, THEN conjunct2, THEN conjunct2, THEN conjunct2, THEN conjunct2, THEN conjunct1]
  note a10 = T1[THEN conjunct2, THEN conjunct2, THEN conjunct2, THEN conjunct2, THEN conjunct2, THEN conjunct2, THEN conjunct2, THEN conjunct2, THEN conjunct2, THEN conjunct1]
  note a12 = T1[THEN conjunct2, THEN conjunct2, THEN conjunct2, THEN conjunct2, THEN conjunct2, THEN conjunct2, THEN conjunct2, THEN conjunct2, THEN conjunct2, THEN conjunct2, THEN conjunct2]
  note b1 = T2[THEN conjunct1]
  note b2 = T2[THEN conjunct2, THEN conjunct1]
  note b9 = T2[THEN conjunct2, THEN conjunct2, THEN conjunct2, THEN conjunct2, THEN conjunct2, THEN conjunct2, THEN conjunct2, THEN conjunct2, THEN conjunct1]
  note b11 = T2[THEN conjunct2, THEN conjunct2, THEN conjunct2, THEN conjunct2, THEN conjunct2, THEN conjunct2, THEN conjunct2, THEN conjunct2, THEN conjunct2, THEN conjunct2, THEN conjunct1]
  note c2 = T3[THEN conjunct2, THEN conjunct1]
  note c8 = T3[THEN conjunct2, THEN conjunct2, THEN conjunct2, THEN conjunct2, THEN conjunct2, THEN conjunct2, THEN conjunct2, THEN conjunct1]
  note d2 = T4[THEN conjunct2, THEN conjunct1]
  note d9 = T4[THEN conjunct2, THEN conjunct2, THEN conjunct2, THEN conjunct2, THEN conjunct2, THEN conjunct2, THEN conjunct2, THEN conjunct2, THEN conjunct1]
  have tp: "tape_positions (length FALLBACK_EASY) trivia_tape = {..<40}"
    using fair_tape_positions[OF f(1)] e(3) by simp
  have cd: "nat 2 \<le> card (tape_positions (length FALLBACK_EASY) trivia_tape)"
    unfolding tp by simp
  have r1: "get_trivia_question ''easy'' 2 [''easy'' \<mapsto> FALLBACK_EASY] trivia_tape \<noteq> None"
    using a3 f(1) by (rule mp)
  have r1': "get_trivia_question ''easy'' 2 [''easy'' \<mapsto> FALLBACK_EASY] trivia_tape \<noteq> None"
    using a2 cd by blast
  have tc0: "tape_positions 40 (sconst 0) = {0}" by (simp add: tape_positions_def)
  have "\<not> (int (length FALLBACK_EASY) \<le> 2 \<or> length FALLBACK_EASY \<le> sample_setsize (nat 2) \<or>
      nat 2 \<le> card (tape_positions (length FALLBACK_EASY) (sconst 0)))"
    by (simp add: e(3) tc0 sample_setsize_small)
  then have nr: "get_trivia_question ''easy'' 2 [''easy'' \<mapsto> FALLBACK_EASY] (sconst 0) = None"
    using d2 by blast
  have "\<not> ((2 :: nat) \<le> 40 \<and> (40 \<le> sample_setsize 2 \<or> 2 \<le> card (tape_positions 40 (sconst 0))))"
    by (simp add: tc0 sample_setsize_small)
  then have np: "sample_positions 2 40 (sconst 0) = None"
    using d9 by blast
  have r2: "get_trivia_question ''hard'' 7 [''hard'' \<mapsto> scenario_pool] trivia_tape \<noteq> None"
    using b2 l(1) by blast
  have r3: "get_trivia_question ''hard'' 2 [''hard'' \<mapsto> scenario_pool] trivia_tape \<noteq> None"
    using c2 l(2) by blast
  have "\<exists>result g' ps.
      get_trivia_question ''easy'' 2 [''easy'' \<mapsto> FALLBACK_EASY] trivia_tape =
        Some (Inr result, [''easy'' \<mapsto> FALLBACK_EASY], g') \<and>
      length result = min (nat 2) (length FALLBACK_EASY) \<and>
      map view_question result = map (\<lambda>i. question (FALLBACK_EASY ! i)) ps \<and>
      map correct result = map (\<lambda>i. correct_answer (FALLBACK_EASY ! i)) ps \<and>
      length ps = min (nat 2) (length FALLBACK_EASY) \<and> distinct ps \<and>
      set ps \<subseteq> {..<length FALLBACK_EASY} \<and>
      (int (length FALLBACK_EASY) \<le> 2 \<longrightarrow> ps = shuffle_order (length FALLBACK_EASY) trivia_tape) \<and>
      (2 < int (length FALLBACK_EASY) \<longrightarrow>
         sample_positions (nat 2) (length FALLBACK_EASY) trivia_tape = Some ps) \<and>
      mset (map ((!) FALLBACK_EASY) ps) \<subseteq># mset FALLBACK_EASY \<and>
      (int (length FALLBACK_EASY) \<le> 2 \<longrightarrow>
         mset (map ((!) FALLBACK_EASY) ps) = mset FALLBACK_EASY) \<and>
      (distinct (map question FALLBACK_EASY) \<longrightarrow> distinct (map view_question result))"
    by (rule disjE[OF a1]) (simp_all only: r1 not_False_eq_True False_implies_equals)
  then obtain result g' ps where x:
      "get_trivia_question ''easy'' 2 [''easy'' \<mapsto> FALLBACK_EASY] trivia_tape =
        Some (Inr result, [''easy'' \<mapsto> FALLBACK_EASY], g')"
      "length result = min (nat 2) (length FALLBACK_EASY)"
      "map view_question result = map (\<lambda>i. question (FALLBACK_EASY ! i)) ps"
      "map correct result = map (\<lambda>i. correct_answer (FALLBACK_EASY ! i)) ps"
      "length ps = min (nat 2) (length FALLBACK_EASY)" "distinct ps"
      "set ps \<subseteq> {..<length FALLBACK_EASY}"
      "int (length FALLBACK_EASY) \<le> 2 \<longrightarrow> ps = shuffle_order (length FALLBACK_EASY) trivia_tape"
      "2 < int (length FALLBACK_EASY) \<longrightarrow>
         sample_positions (nat 2) (length FALLBACK_EASY) trivia_tape = Some ps"
      "mset (map ((!) FALLBACK_EASY) ps) \<subseteq># mset FALLBACK_EASY"
      "int (length FALLBACK_EASY) \<le> 2 \<longrightarrow>
         mset (map ((!) FALLBACK_EASY) ps) = mset FALLBACK_EASY"
      "distinct (map question FALLBACK_EASY) \<longrightarrow> distinct (map view_question result)"
    by (elim exE conjE) (rule that; assumption)
  have y: "length result = 2" "length ps = 2" "set ps \<subseteq> {..<40}"
    using x(2,5,7) e(3) by simp_all
  have y8: "ps = [3, 5]" using x(9) positions_examples(3) e(3) by simp
  have y10: "distinct (map view_question result)" using x(12) distinct_easy by (rule mp)
  have w1: "\<exists>result g' ps.
      get_trivia_question ''easy'' 2 [''easy'' \<mapsto> FALLBACK_EASY] trivia_tape =
        Some (Inr result, [''easy'' \<mapsto> FALLBACK_EASY], g') \<and>
      length result = 2 \<and>
      map view_question result = map (\<lambda>i. question (FALLBACK_EASY ! i)) ps \<and>
      map correct result = map (\<lambda>i. correct_answer (FALLBACK_EASY ! i)) ps \<and>
      length ps = 2 \<and> distinct ps \<and> set ps \<subseteq> {..<40} \<and>
      ps = [3, 5] \<and>
      mset (map ((!) FALLBACK_EASY) ps) \<subseteq># mset FALLBACK_EASY \<and>
      distinct (map view_question result)"
    by (intro exI conjI) (rule x(1) y(1) x(3) x(4) y(2) x(6) y(3) y8 x(10) y10)+
  have "\<exists>result g' ps.
      get_trivia_question ''hard'' 7 [''hard'' \<mapsto> scenario_pool] trivia_tape =
        Some (Inr result, [''hard'' \<mapsto> scenario_pool], g') \<and>
      length result = min (nat 7) (length scenario_pool) \<and>
      map view_question result = map (\<lambda>i. question (scenario_pool ! i)) ps \<and>
      map correct result = map (\<lambda>i. correct_answer (scenario_pool ! i)) ps \<and>
      length ps = min (nat 7) (length scenario_pool) \<and> distinct ps \<and>
      set ps \<subseteq> {..<length scenario_pool} \<and>
      (int (length scenario_pool) \<le> 7 \<longrightarrow> ps = shuffle_order (length scenario_pool) trivia_tape) \<and>
      (7 < int (length scenario_pool) \<longrightarrow>
         sample_positions (nat 7) (length scenario_pool) trivia_tape = Some ps) \<and>
      mset (map ((!) scenario_pool) ps) \<subseteq># mset scenario_pool \<and>
      (int (length scenario_pool) \<le> 7 \<longrightarrow>
         mset (map ((!) scenario_pool) ps) = mset scenario_pool) \<and>
      (distinct (map question scenario_pool) \<longrightarrow> distinct (map view_question result))"
    by (rule disjE[OF b1]) (simp_all only: r2 not_False_eq_True False_implies_equals)
  then obtain result2 g2 ps2 where z:
      "get_trivia_question ''hard'' 7 [''hard'' \<mapsto> scenario_pool] trivia_tape =
        Some (Inr result2, [''hard'' \<mapsto> scenario_pool], g2)"
      "length result2 = min (nat 7) (length scenario_pool)"
      "map view_question result2 = map (\<lambda>i. question (scenario_pool ! i)) ps2"
      "map correct result2 = map (\<lambda>i. correct_answer (scenario_pool ! i)) ps2"
      "length ps2 = min (nat 7) (length scenario_pool)" "distinct ps2"
      "set ps2 \<subseteq> {..<length scenario_pool}"
      "int (length scenario_pool) \<le> 7 \<longrightarrow> ps2 = shuffle_order (length scenario_pool) trivia_tape"
      "7 < int (length scenario_pool) \<longrightarrow>
         sample_positions (nat 7) (length scenario_pool) trivia_tape = Some ps2"
      "mset (map ((!) scenario_pool) ps2) \<subseteq># mset scenario_pool"
      "int (length scenario_pool) \<le> 7 \<longrightarrow>
         mset (map ((!) scenario_pool) ps2) = mset scenario_pool"
      "distinct (map question scenario_pool) \<longrightarrow> distinct (map view_question result2)"
    by (elim exE conjE) (rule that; assumption)
  have v: "length result2 = 5" "length ps2 = 5" "set ps2 \<subseteq> {..<5}"
    using z(2,5,7) h(3) by simp_all
  have v8: "ps2 = [0, 1, 2, 4, 3]" using z(8) l(1) order_examples(3) h(3) by simp
  have v11: "mset (map ((!) scenario_pool) ps2) = mset scenario_pool" using z(11) l(1) by (rule mp)
  have w2: "\<exists>result g' ps.
      get_trivia_question ''hard'' 7 [''hard'' \<mapsto> scenario_pool] trivia_tape =
        Some (Inr result, [''hard'' \<mapsto> scenario_pool], g') \<and>
      length result = 5 \<and>
      map view_question result = map (\<lambda>i. question (scenario_pool ! i)) ps \<and>
      map correct result = map (\<lambda>i. correct_answer (scenario_pool ! i)) ps \<and>
      length ps = 5 \<and> distinct ps \<and> set ps \<subseteq> {..<5} \<and>
      ps = [0, 1, 2, 4, 3] \<and>
      mset (map ((!) scenario_pool) ps) \<subseteq># mset scenario_pool \<and>
      mset (map ((!) scenario_pool) ps) = mset scenario_pool"
    by (intro exI conjI) (rule z(1) v(1) z(3) z(4) v(2) z(6) v(3) v8 z(10) v11)+
  have dr3: "sample_draws 2 3 trivia_tape = sample_draws 2 3 ([6, 5] @- sconst 4)"
    by (simp only: draws_examples)
  have t: "(3 :: nat) - 1 = 2" by simp
  have so: "shuffle_order 3 trivia_tape = shuffle_order 3 ([6, 5] @- sconst 4)"
    using a5 dr3 unfolding t by (rule iffD2)
  have sr: "\<exists>g0. shuffle_order 3 g0 = [1, 2, 0]"
    using a6 m by blast
  have pn: "sample_positions 2 5 trivia_tape \<noteq> None"
    using b9 n(3,5) by blast
  have dr5: "sample_draws 2 5 trivia_tape = sample_draws 2 5 ([8, 7] @- sconst 7)"
    by (simp only: draws_examples)
  have sp: "sample_positions 2 5 trivia_tape = sample_positions 2 5 ([8, 7] @- sconst 7)"
    using b11 n(3,5) dr5 by blast
  have re: "\<exists>g0. sample_positions 2 40 g0 = Some [39, 0]"
    using c8 q(4,5,6) by blast
  have pf: "sample_positions 2 40 trivia_tape \<noteq> None"
    using a10 n(4) f(2) by blast
  have rl: "sample_positions 2 40 (relabel (\<lambda>x. 39 - x) 40 trivia_tape) =
     map_option (map (\<lambda>x. 39 - x)) (sample_positions 2 40 trivia_tape)"
    using a12 n(4,6) mirror_bij by blast
  show ?thesis
    by (intro conjI e(1,2) distinct_easy f easy_sample r1 r2 r3 w1 w2 h(1,2) l whole_sample
        part_sample a4 order_examples(1) dr3 so m sr positions_examples(1) n(3,4,5,6) q pn
        dr5 sp re pf positions_examples(3) mirror_bij rl positions_examples(4) tp tc0 np nr)
qed

theorem sample_never_fails_witness:
  "(0 :: int) \<le> 2 \<and>
   get_trivia_question ''banana'' 2 Map.empty trivia_tape =
     Some (Inr [\<lparr>view_question = ''What gas do plants absorb from the atmosphere?'',
                 answers = [''Carbon Dioxide'', ''Oxygen'', ''Helium'', ''Nitrogen''],
                 correct = ''Carbon Dioxide'', view_category = ''General''\<rparr>,
                \<lparr>view_question = ''What is the chemical symbol for water?'',
                 answers = [''CO2'', ''NaCl'', ''H2O'', ''O2''],
                 correct = ''H2O'', view_category = ''General''\<rparr>],
           [''banana'' \<mapsto> FALLBACK_EASY], counting_tape) \<and>
   cache_get Map.empty ''banana'' = [] \<and> ''banana'' \<notin> {''easy'', ''medium'', ''hard''} \<and>
   emergency_pool ''banana'' Map.empty = (FALLBACK_EASY, [''banana'' \<mapsto> FALLBACK_EASY]) \<and>
   emergency_pool ''easy'' Map.empty = (FALLBACK_EASY, [''easy'' \<mapsto> FALLBACK_EASY]) \<and>
   emergency_pool ''medium'' Map.empty = (FALLBACK_MEDIUM, [''medium'' \<mapsto> FALLBACK_MEDIUM]) \<and>
   emergency_pool ''hard'' Map.empty = (FALLBACK_HARD, [''hard'' \<mapsto> FALLBACK_HARD]) \<and>
   cache_get custom_cache ''hard'' \<noteq> [] \<and>
   emergency_pool ''hard'' custom_cache = (custom_pool, custom_cache) \<and>
   fair_tape (length (fst (emergency_pool ''banana'' Map.empty))) trivia_tape \<and>
   get_trivia_question ''banana'' 2 Map.empty trivia_tape \<noteq> None \<and>
   (\<exists>result g' selected.
      get_trivia_question ''banana'' 2 Map.empty trivia_tape =
        Some (Inr result, [''banana'' \<mapsto> FALLBACK_EASY], g') \<and>
      length result = 2 \<and> result \<noteq> [] \<and>
      map view_question result = map question selected \<and>
      mset selected \<subseteq># mset FALLBACK_EASY) \<and>
   length (fst (emergency_pool ''hard'' custom_cache)) \<le> sample_setsize (nat 2) \<and>
   get_trivia_question ''hard'' 2 custom_cache (sconst 0) \<noteq> None \<and>
   int (length (fst (emergency_pool ''medium'' Map.empty))) \<le> 20 \<and>
   get_trivia_question ''medium'' 20 Map.empty (sconst 0) \<noteq> None"
proof -
  have c: "cache_get Map.empty d = []" for d by (simp add: cache_get_def)
  have b: "''banana'' \<notin> {''easy'', ''medium'', ''hard''}" by simp
  have k: "cache_get custom_cache ''hard'' = custom_pool" "custom_pool \<noteq> []"
    "length custom_pool = 10"
    by (simp_all add: cache_get_def custom_cache_def custom_pool_def)
  have k': "cache_get custom_cache ''hard'' \<noteq> []" using k by simp
  have n: "(0 :: int) \<le> 2" "(0 :: int) \<le> 20" by simp_all
  note T1 = sample_never_fails[where difficulty = "''banana''" and tc = Map.empty
      and cnt = 2 and g = trivia_tape, OF n(1)]
  note T2 = sample_never_fails[where difficulty = "''easy''" and tc = Map.empty
      and cnt = 2 and g = trivia_tape, OF n(1)]
  note T3 = sample_never_fails[where difficulty = "''medium''" and tc = Map.empty
      and cnt = 20 and g = "sconst 0", OF n(2)]
  note T4 = sample_never_fails[where difficulty = "''hard''" and tc = Map.empty
      and cnt = 2 and g = trivia_tape, OF n(1)]
  note T5 = sample_never_fails[where difficulty = "''hard''" and tc = custom_cache
      and cnt = 2 and g = "sconst 0", OF n(1)]
  have p1: "emergency_pool ''banana'' Map.empty = (FALLBACK_EASY, [''banana'' \<mapsto> FALLBACK_EASY])"
    using T1[THEN conjunct2, THEN conjunct2, THEN conjunct2, THEN conjunct2, THEN conjunct2, THEN conjunct2, THEN conjunct2, THEN conjunct2, THEN conjunct1] c b
    by (elim impE) (intro conjI, assumption+)
  have p2: "emergency_pool ''easy'' Map.empty = (FALLBACK_EASY, [''easy'' \<mapsto> FALLBACK_EASY])"
    using T2[THEN conjunct2, THEN conjunct2, THEN conjunct2, THEN conjunct2, THEN conjunct2, THEN conjunct1] c
    by (elim impE) (intro conjI refl, assumption+)
  have p3: "emergency_pool ''medium'' Map.empty = (FALLBACK_MEDIUM, [''medium'' \<mapsto> FALLBACK_MEDIUM])"
    using T3[THEN conjunct2, THEN conjunct2, THEN conjunct2, THEN conjunct2, THEN conjunct2, THEN conjunct2, THEN conjunct1] c
    by (elim impE) (intro conjI refl, assumption+)
  have p4: "emergency_pool ''hard'' Map.empty = (FALLBACK_HARD, [''hard'' \<mapsto> FALLBACK_HARD])"
    using T4[THEN conjunct2, THEN conjunct2, THEN conjunct2, THEN conjunct2, THEN conjunct2, THEN conjunct2, THEN conjunct2, THEN conjunct1] c
    by (elim impE) (intro conjI refl, assumption+)
  have "emergency_pool ''hard'' custom_cache = (cache_get custom_cache ''hard'', custom_cache)"
    using T5[THEN conjunct2, THEN conjunct2, THEN conjunct2, THEN conjunct2, THEN conjunct1] k'
    by (elim impE) assumption+
  then have p5: "emergency_pool ''hard'' custom_cache = (custom_pool, custom_cache)"
    by (simp only: k(1))
  have f: "fair_tape (length (fst (emergency_pool ''banana'' Map.empty))) trivia_tape"
    by (rule fair_trivia_tape)
  have r1: "get_trivia_question ''banana'' 2 Map.empty trivia_tape \<noteq> None"
    using T1[THEN conjunct2, THEN conjunct2, THEN conjunct1] f by (rule mp)
  have l5: "length (fst (emergency_pool ''hard'' custom_cache)) \<le> sample_setsize (nat 2)"
    by (simp add: p5 k(3) sample_setsize_small)
  have r5: "get_trivia_question ''hard'' 2 custom_cache (sconst 0) \<noteq> None"
    using T5[THEN conjunct2, THEN conjunct1] l5 by blast
  have l3: "int (length (fst (emergency_pool ''medium'' Map.empty))) \<le> 20"
    by (simp add: p3 length_banks)
  have r3: "get_trivia_question ''medium'' 20 Map.empty (sconst 0) \<noteq> None"
    using T3[THEN conjunct2, THEN conjunct1] l3 by blast
  have "\<exists>result g' selected.
      get_trivia_question ''banana'' 2 Map.empty trivia_tape =
        Some (Inr result, snd (emergency_pool ''banana'' Map.empty), g') \<and>
      length result = min (nat 2) (length (fst (emergency_pool ''banana'' Map.empty))) \<and>
      ((1 :: int) \<le> 2 \<longrightarrow> result \<noteq> []) \<and>
      map view_question result = map question selected \<and>
      mset selected \<subseteq># mset (fst (emergency_pool ''banana'' Map.empty))"
    by (rule disjE[OF T1[THEN conjunct1]]) (simp_all only: r1 not_False_eq_True False_implies_equals)
  then obtain result g' selected where x:
      "get_trivia_question ''banana'' 2 Map.empty trivia_tape =
        Some (Inr result, snd (emergency_pool ''banana'' Map.empty), g')"
      "length result = min (nat 2) (length (fst (emergency_pool ''banana'' Map.empty)))"
      "(1 :: int) \<le> 2 \<longrightarrow> result \<noteq> []"
      "map view_question result = map question selected"
      "mset selected \<subseteq># mset (fst (emergency_pool ''banana'' Map.empty))"
    by (elim exE conjE) (rule that; assumption)
  have y: "get_trivia_question ''banana'' 2 Map.empty trivia_tape =
        Some (Inr result, [''banana'' \<mapsto> FALLBACK_EASY], g')"
    "length result = 2" "result \<noteq> []" "mset selected \<subseteq># mset FALLBACK_EASY"
    using x(1,2,3,5) by (simp_all add: p1 length_banks)
  have p7: "\<exists>result g' selected.
      get_trivia_question ''banana'' 2 Map.empty trivia_tape =
        Some (Inr result, [''banana'' \<mapsto> FALLBACK_EASY], g') \<and>
      length result = 2 \<and> result \<noteq> [] \<and>
      map view_question result = map question selected \<and>
      mset selected \<subseteq># mset FALLBACK_EASY"
    by (intro exI conjI) (rule y(1) y(2) y(3) x(4) y(4))+
  show ?thesis
    by (intro conjI n(1) banana_sample c b k' p1 p2 p3 p4 p5 f r1 p7 l5 r5 l3 r3)
qed

end
